theory Spec2Isabelle
  imports Main "HOL-Library.Char_ord" "HOL-Library.List_Lexorder"
begin


section \<open>Byte strings and the operations of \<open>str\<close> the module relies on\<close>

text \<open>
  The module is Python 2 code (\<open>cmp\<close>, \<open>str.__init__(self, strMe)\<close>), so a \<open>str\<close> is a
  sequence of bytes and \<open>lower()\<close> maps the ASCII capitals to their small letters (C locale).
  Strings are \<open>string\<close>; their order is the lexicographic order on byte values.
  Paths follow \<open>posixpath\<close>.
\<close>

datatype error = ValueError | IOError | OSError | ShutilError | UnboundLocalError

datatype status = Ok | Raised error

definition lower_char :: "char \<Rightarrow> char" where
  "lower_char c =
     (let n = (of_char c :: nat) in if 65 \<le> n \<and> n \<le> 90 then char_of (n + 32) else c)"

definition str_lower :: "string \<Rightarrow> string" where
  "str_lower s = map lower_char s"

text \<open>Optional \<open>start\<close> and \<open>end\<close> arguments are normalised as CPython does for a slice.\<close>

definition adjust_indices :: "nat \<Rightarrow> int option \<Rightarrow> int option \<Rightarrow> int \<times> int" where
  "adjust_indices len start stop =
     (let n = int len;
          e = (case stop of None \<Rightarrow> n
               | Some e \<Rightarrow> if e > n then n else if e < 0 then max 0 (e + n) else e);
          b = (case start of None \<Rightarrow> 0
               | Some b \<Rightarrow> if b < 0 then max 0 (b + n) else b)
      in (b, e))"

definition slice :: "string \<Rightarrow> int \<Rightarrow> int \<Rightarrow> string" where
  "slice s b e = take (nat (e - b)) (drop (nat b) s)"

fun find_first :: "string \<Rightarrow> string \<Rightarrow> nat option" where
  "find_first sub [] = (if sub = [] then Some 0 else None)"
| "find_first sub (c # t) =
     (if take (length sub) (c # t) = sub then Some 0 else map_option Suc (find_first sub t))"

fun find_last :: "string \<Rightarrow> string \<Rightarrow> nat option" where
  "find_last sub [] = (if sub = [] then Some 0 else None)"
| "find_last sub (c # t) =
     (case find_last sub t of
        Some i \<Rightarrow> Some (Suc i)
      | None \<Rightarrow> if take (length sub) (c # t) = sub then Some 0 else None)"

function count_occ :: "string \<Rightarrow> string \<Rightarrow> nat" where
  "count_occ sub t =
     (if sub = [] then length t + 1
      else if length t < length sub then 0
      else if take (length sub) t = sub then 1 + count_occ sub (drop (length sub) t)
      else count_occ sub (tl t))"
  by pat_completeness auto
termination
  by (relation "measure (\<lambda>(sub, t). length t)") (auto simp: neq_Nil_conv)

definition str_contains :: "string \<Rightarrow> string \<Rightarrow> bool" where
  "str_contains s sub = (find_first sub s \<noteq> None)"

definition str_find :: "string \<Rightarrow> string \<Rightarrow> int option \<Rightarrow> int option \<Rightarrow> int" where
  "str_find s sub start stop =
     (case adjust_indices (length s) start stop of (b, e) \<Rightarrow>
        if e - b < int (length sub) then - 1
        else (case find_first sub (slice s b e) of None \<Rightarrow> - 1 | Some i \<Rightarrow> b + int i))"

definition str_rfind :: "string \<Rightarrow> string \<Rightarrow> int option \<Rightarrow> int option \<Rightarrow> int" where
  "str_rfind s sub start stop =
     (case adjust_indices (length s) start stop of (b, e) \<Rightarrow>
        if e - b < int (length sub) then - 1
        else (case find_last sub (slice s b e) of None \<Rightarrow> - 1 | Some i \<Rightarrow> b + int i))"

definition str_index :: "string \<Rightarrow> string \<Rightarrow> int option \<Rightarrow> int option \<Rightarrow> error + int" where
  "str_index s sub start stop =
     (let i = str_find s sub start stop in if i < 0 then Inl ValueError else Inr i)"

definition str_rindex :: "string \<Rightarrow> string \<Rightarrow> int option \<Rightarrow> int option \<Rightarrow> error + int" where
  "str_rindex s sub start stop =
     (let i = str_rfind s sub start stop in if i < 0 then Inl ValueError else Inr i)"

definition str_count :: "string \<Rightarrow> string \<Rightarrow> int option \<Rightarrow> int option \<Rightarrow> int" where
  "str_count s sub start stop =
     (case adjust_indices (length s) start stop of (b, e) \<Rightarrow>
        if e - b < int (length sub) then 0 else int (count_occ sub (slice s b e)))"

definition str_startswith :: "string \<Rightarrow> string \<Rightarrow> int option \<Rightarrow> int option \<Rightarrow> bool" where
  "str_startswith s sub start stop =
     (case adjust_indices (length s) start stop of (b, e) \<Rightarrow>
        if e - b < int (length sub) then False
        else slice s b (b + int (length sub)) = sub)"

definition str_endswith :: "string \<Rightarrow> string \<Rightarrow> int option \<Rightarrow> int option \<Rightarrow> bool" where
  "str_endswith s sub start stop =
     (case adjust_indices (length s) start stop of (b, e) \<Rightarrow>
        if e - b < int (length sub) then False
        else slice s (e - int (length sub)) e = sub)"

definition cmp :: "string \<Rightarrow> string \<Rightarrow> int" where
  "cmp a b = (if a < b then - 1 else if a = b then 0 else 1)"

section \<open>The class \<open>iStr\<close>\<close>

text \<open>
  An \<open>iStr\<close> is a \<open>str\<close> carrying the attribute \<open>__lowerCaseMe\<close>, set by \<open>__init__\<close>.
  The other operand of a method is any object with a \<open>lower()\<close> method: a plain
  \<open>str\<close>, or an \<open>iStr\<close>, whose \<open>lower()\<close> is the overridden one.
\<close>

record iStr =
  text_of :: string
  lowerCaseMe :: string

definition iStr_init :: "string \<Rightarrow> iStr" where
  "iStr_init strMe = \<lparr>text_of = strMe, lowerCaseMe = str_lower strMe\<rparr>"

definition iStr_lower :: "iStr \<Rightarrow> string" where
  "iStr_lower self = lowerCaseMe self"

datatype operand = Str string | IStr iStr

fun lower :: "operand \<Rightarrow> string" where
  "lower (Str s) = str_lower s"
| "lower (IStr i) = iStr_lower i"

definition iStr_eq :: "iStr \<Rightarrow> operand \<Rightarrow> bool" where
  "iStr_eq self other = (lowerCaseMe self = lower other)"

definition iStr_lt :: "iStr \<Rightarrow> operand \<Rightarrow> bool" where
  "iStr_lt self other = (lowerCaseMe self < lower other)"

definition iStr_le :: "iStr \<Rightarrow> operand \<Rightarrow> bool" where
  "iStr_le self other = (lowerCaseMe self \<le> lower other)"

definition iStr_gt :: "iStr \<Rightarrow> operand \<Rightarrow> bool" where
  "iStr_gt self other = (lowerCaseMe self > lower other)"

definition iStr_ne :: "iStr \<Rightarrow> operand \<Rightarrow> bool" where
  "iStr_ne self other = (lowerCaseMe self \<noteq> lower other)"

definition iStr_ge :: "iStr \<Rightarrow> operand \<Rightarrow> bool" where
  "iStr_ge self other = (lowerCaseMe self \<ge> lower other)"

definition iStr_cmp :: "iStr \<Rightarrow> operand \<Rightarrow> int" where
  "iStr_cmp self other = cmp (lowerCaseMe self) (lower other)"

text \<open>The built-in \<open>hash\<close> of the interpreter is a parameter.\<close>

definition iStr_hash :: "(string \<Rightarrow> int) \<Rightarrow> iStr \<Rightarrow> int" where
  "iStr_hash hash self = hash (lowerCaseMe self)"

definition iStr_contains :: "iStr \<Rightarrow> operand \<Rightarrow> bool" where
  "iStr_contains self other = str_contains (lowerCaseMe self) (lower other)"

definition iStr_count :: "iStr \<Rightarrow> operand \<Rightarrow> int option \<Rightarrow> int option \<Rightarrow> int" where
  "iStr_count self other start stop = str_count (lowerCaseMe self) (lower other) start stop"

definition iStr_endswith :: "iStr \<Rightarrow> operand \<Rightarrow> int option \<Rightarrow> int option \<Rightarrow> bool" where
  "iStr_endswith self other start stop =
     str_endswith (lowerCaseMe self) (lower other) start stop"

definition iStr_find :: "iStr \<Rightarrow> operand \<Rightarrow> int option \<Rightarrow> int option \<Rightarrow> int" where
  "iStr_find self other start stop = str_find (lowerCaseMe self) (lower other) start stop"

definition iStr_index :: "iStr \<Rightarrow> operand \<Rightarrow> int option \<Rightarrow> int option \<Rightarrow> error + int" where
  "iStr_index self other start stop = str_index (lowerCaseMe self) (lower other) start stop"

definition iStr_rfind :: "iStr \<Rightarrow> operand \<Rightarrow> int option \<Rightarrow> int option \<Rightarrow> int" where
  "iStr_rfind self other start stop = str_rfind (lowerCaseMe self) (lower other) start stop"

definition iStr_rindex :: "iStr \<Rightarrow> operand \<Rightarrow> int option \<Rightarrow> int option \<Rightarrow> error + int" where
  "iStr_rindex self other start stop = str_rindex (lowerCaseMe self) (lower other) start stop"

definition iStr_startswith :: "iStr \<Rightarrow> operand \<Rightarrow> int option \<Rightarrow> int option \<Rightarrow> bool" where
  "iStr_startswith self other start stop =
     str_startswith (lowerCaseMe self) (lower other) start stop"

section \<open>Paths\<close>

type_synonym path = string

text \<open>\<open>p.rfind(c)\<close> for a single character: the highest index of \<open>c\<close>, or \<open>-1\<close>.\<close>

definition rfind_char :: "char \<Rightarrow> string \<Rightarrow> int" where
  "rfind_char c p =
     (if c \<in> set p
      then int (length p) - 1 - int (length (takeWhile (\<lambda>x. x \<noteq> c) (rev p)))
      else - 1)"

text \<open>
  \<open>os.path.splitext\<close> (Python 2.6 and later): the extension starts at the last dot of
  the last path component, unless only dots precede it in that component; the loop that
  skips the leading dots is the \<open>list_ex\<close> below.
\<close>

definition splitext :: "path \<Rightarrow> string \<times> string" where
  "splitext p =
     (let sepIndex = rfind_char CHR ''/'' p;
          dotIndex = rfind_char CHR ''.'' p
      in if dotIndex > sepIndex \<and>
            list_ex (\<lambda>c. c \<noteq> CHR ''.'')
              (take (nat (dotIndex - (sepIndex + 1))) (drop (nat (sepIndex + 1)) p))
         then (take (nat dotIndex) p, drop (nat dotIndex) p)
         else (p, []))"

text \<open>\<open>os.path.join(a, b)\<close> with two arguments.\<close>

definition join :: "path \<Rightarrow> string \<Rightarrow> path" where
  "join a b =
     (if take 1 b = ''/'' then b
      else if a = [] \<or> (a \<noteq> [] \<and> last a = CHR ''/'') then a @ b
      else a @ ''/'' @ b)"

section \<open>\<open>str\<close> of an integer and \<open>zfill\<close>\<close>

definition digit_char :: "nat \<Rightarrow> char" where
  "digit_char d = char_of (48 + d)"

fun str_nat :: "nat \<Rightarrow> string" where
  "str_nat n = (if n < 10 then [digit_char n] else str_nat (n div 10) @ [digit_char (n mod 10)])"

declare str_nat.simps [simp del]

definition str_int :: "int \<Rightarrow> string" where
  "str_int i = (if i < 0 then CHR ''-'' # str_nat (nat (- i)) else str_nat (nat i))"

text \<open>\<open>s.zfill(width)\<close>: zeros go after a leading sign.\<close>

definition zfill :: "string \<Rightarrow> int \<Rightarrow> string" where
  "zfill s width =
     (if width \<le> int (length s) then s
      else let fill = nat (width - int (length s)) in
        (case s of
           [] \<Rightarrow> replicate fill CHR ''0''
         | c # rest \<Rightarrow>
             if c = CHR ''+'' \<or> c = CHR ''-'' then c # replicate fill CHR ''0'' @ rest
             else replicate fill CHR ''0'' @ s))"

section \<open>The file system\<close>

text \<open>
  The host file system is a map from path strings to nodes. A path string denotes one
  entry (no links, no second spelling of a path through \<open>.\<close>, \<open>..\<close> or doubled
  separators). The calls below fail the way the POSIX calls behind them do on this map;
  permissions, a missing parent directory of a new file and a full disk are outside the model.
\<close>

datatype node = File string | Dir

type_synonym filesystem = "path \<rightharpoonup> node"

definition isfile :: "filesystem \<Rightarrow> path \<Rightarrow> bool" where
  "isfile fs p = (case fs p of Some (File c) \<Rightarrow> True | _ \<Rightarrow> False)"

text \<open>
  \<open>shutil.copyfile(src, dst)\<close>: refuses to copy a file onto itself, opens \<open>src\<close> for
  reading and \<open>dst\<close> for writing, which creates or truncates it, and copies the content.
\<close>

definition copyfile :: "filesystem \<Rightarrow> path \<Rightarrow> path \<Rightarrow> error + filesystem" where
  "copyfile fs src dst =
     (if src = dst \<and> fs src \<noteq> None then Inl ShutilError
      else case fs src of
             Some (File content) \<Rightarrow>
               (case fs dst of
                  Some Dir \<Rightarrow> Inl IOError
                | _ \<Rightarrow> Inr (fs(dst \<mapsto> File content)))
           | _ \<Rightarrow> Inl IOError)"

text \<open>
  \<open>os.rename(old, new)\<close> for a regular file \<open>old\<close> (the only use the module makes of it):
  an existing regular file \<open>new\<close> is replaced, a directory \<open>new\<close> is an error, and renaming
  a file to itself changes nothing.
\<close>

definition os_rename :: "filesystem \<Rightarrow> path \<Rightarrow> path \<Rightarrow> error + filesystem" where
  "os_rename fs old new =
     (case fs old of
        Some (File content) \<Rightarrow>
          (case fs new of
             Some Dir \<Rightarrow> Inl OSError
           | _ \<Rightarrow> Inr ((fs(old := None))(new \<mapsto> File content)))
      | _ \<Rightarrow> Inl OSError)"

text \<open>\<open>open(loc, "w")\<close>: creates the file, or truncates it.\<close>

definition open_w :: "filesystem \<Rightarrow> path \<Rightarrow> error + filesystem" where
  "open_w fs loc =
     (case fs loc of
        Some Dir \<Rightarrow> Inl IOError
      | _ \<Rightarrow> Inr (fs(loc \<mapsto> File [])))"

section \<open>\<open>copy_recursively\<close>\<close>

text \<open>
  The name tried after \<open>seq\<close> collisions:
  \<open>os.path.join(dest, os.path.splitext(filename)[0] + str(seq) + os.path.splitext(filename)[1])\<close>.
\<close>

definition candidate :: "path \<Rightarrow> string \<Rightarrow> nat \<Rightarrow> path" where
  "candidate dest filename seq =
     join dest (fst (splitext filename) @ str_int (int seq) @ snd (splitext filename))"

text \<open>
  The loop \<open>while os.path.isfile(dest_path)\<close>. It has no bound, so it is a partial function:
  \<open>None\<close> is the loop that never ends.
\<close>

partial_function (option) probe :: "filesystem \<Rightarrow> path \<Rightarrow> string \<Rightarrow> path \<Rightarrow> nat \<Rightarrow> path option" where
  "probe fs dest filename dest_path seq =
     (if isfile fs dest_path
      then probe fs dest filename (candidate dest filename seq) (seq + 1)
      else Some dest_path)"

declare probe.simps [code]

text \<open>The extension compared with the filter: \<open>os.path.splitext(filename)[1][1:]\<close>.\<close>

definition extension_of :: "string \<Rightarrow> string" where
  "extension_of filename = drop 1 (snd (splitext filename))"

definition matches :: "string option \<Rightarrow> string \<Rightarrow> bool" where
  "matches ext filename =
     (let extension = iStr_init (extension_of filename)
      in case ext of None \<Rightarrow> True | Some e \<Rightarrow> iStr_eq extension (Str e))"

text \<open>
  The body of the inner loop on one \<open>filename\<close> of the directory \<open>root\<close>. The state is the
  file system and \<open>file_counter\<close>; an exception leaves the loops with the state it found.
\<close>

definition copy_one ::
  "path \<Rightarrow> path \<Rightarrow> string option \<Rightarrow> string \<Rightarrow> filesystem \<times> nat
     \<Rightarrow> (status \<times> filesystem \<times> nat) option" where
  "copy_one root dest ext filename st =
     (case st of (fs, file_counter) \<Rightarrow>
        if matches ext filename then
          let src_path = join root filename;
              dest_path = join dest filename
          in (case probe fs dest filename dest_path 0 of
                None \<Rightarrow> None
              | Some dest_path' \<Rightarrow>
                  (case copyfile fs src_path dest_path' of
                     Inl e \<Rightarrow> Some (Raised e, fs, file_counter)
                   | Inr fs' \<Rightarrow> Some (Ok, fs', file_counter + 1)))
        else Some (Ok, fs, file_counter))"

fun copy_files ::
  "path \<Rightarrow> path \<Rightarrow> string option \<Rightarrow> string list \<Rightarrow> filesystem \<times> nat
     \<Rightarrow> (status \<times> filesystem \<times> nat) option" where
  "copy_files root dest ext [] st = Some (Ok, st)"
| "copy_files root dest ext (filename # files) st =
     (case copy_one root dest ext filename st of
        None \<Rightarrow> None
      | Some (Raised e, st') \<Rightarrow> Some (Raised e, st')
      | Some (Ok, st') \<Rightarrow> copy_files root dest ext files st')"

text \<open>
  \<open>os.walk(src)\<close> is the host's enumeration of the tree: the triples
  \<open>(root, subFolders, files)\<close> it yields during the call are the parameter \<open>walk\<close>.
\<close>

type_synonym walk = "(path \<times> string list \<times> string list) list"

fun copy_walk ::
  "walk \<Rightarrow> path \<Rightarrow> string option \<Rightarrow> filesystem \<times> nat
     \<Rightarrow> (status \<times> filesystem \<times> nat) option" where
  "copy_walk [] dest ext st = Some (Ok, st)"
| "copy_walk ((root, subFolders, files) # rest) dest ext st =
     (case copy_files root dest ext files st of
        None \<Rightarrow> None
      | Some (Raised e, st') \<Rightarrow> Some (Raised e, st')
      | Some (Ok, st') \<Rightarrow> copy_walk rest dest ext st')"

text \<open>
  The result is the status, the file system left behind and \<open>file_counter\<close>, which the
  function logs when it returns.
\<close>

definition copy_recursively ::
  "filesystem \<Rightarrow> walk \<Rightarrow> path \<Rightarrow> string option \<Rightarrow> (status \<times> filesystem \<times> nat) option" where
  "copy_recursively fs walk dest ext = copy_walk walk dest ext (fs, 0)"

section \<open>\<open>rename_sequencial\<close>\<close>

text \<open>
  \<open>os.listdir(src)\<close> is evaluated once, before the loop: the names it returns, in the
  host's order, are the parameter \<open>listdir\<close>. The state is the file system and \<open>seq\<close>.
\<close>

definition rename_one ::
  "path \<Rightarrow> string \<Rightarrow> int \<Rightarrow> string \<Rightarrow> filesystem \<times> int \<Rightarrow> status \<times> filesystem \<times> int" where
  "rename_one src stem padding item st =
     (case st of (fs, seq) \<Rightarrow>
        if isfile fs (join src item) then
          let new_name = join src (stem @ ''_'' @ zfill (str_int seq) padding @ snd (splitext item))
          in (case os_rename fs (join src item) new_name of
                Inl e \<Rightarrow> (Raised e, fs, seq)
              | Inr fs' \<Rightarrow> (Ok, fs', seq + 1))
        else (Ok, fs, seq))"

fun rename_items ::
  "path \<Rightarrow> string \<Rightarrow> int \<Rightarrow> string list \<Rightarrow> filesystem \<times> int \<Rightarrow> status \<times> filesystem \<times> int" where
  "rename_items src stem padding [] st = (Ok, st)"
| "rename_items src stem padding (item # items) st =
     (case rename_one src stem padding item st of
        (Raised e, st') \<Rightarrow> (Raised e, st')
      | (Ok, st') \<Rightarrow> rename_items src stem padding items st')"

text \<open>
  The result is the status, the file system left behind and the number the function logs
  when it returns: \<open>logger.info("%d files renamed", seq)\<close>.
\<close>

definition rename_sequencial ::
  "filesystem \<Rightarrow> string list \<Rightarrow> path \<Rightarrow> string \<Rightarrow> int \<Rightarrow> int \<Rightarrow> status \<times> filesystem \<times> int" where
  "rename_sequencial fs listdir src stem padding start_num =
     rename_items src stem padding listdir (fs, start_num)"

section \<open>\<open>list_files\<close>\<close>

text \<open>
  \<open>os.stat\<close> is the host's: \<open>st_size\<close> is a number of bytes, and \<open>st_mtime\<close> a float, of a
  type \<open>'f\<close> left open here together with its \<open>str\<close>. Both are parameters, as is the
  listing \<open>os.listdir(src)\<close>, which is taken after the output file has been opened.
\<close>

record 'f stat_result =
  st_size :: nat
  st_mtime :: 'f

text \<open>The header; with any other mode \<open>line\<close> is unbound when \<open>line += "\n"\<close> reads it.\<close>

definition header :: "string \<Rightarrow> string \<Rightarrow> error + string" where
  "header mode sep =
     (if mode = ''simple'' then Inr (''file_name'' @ [CHR 0x0A])
      else if mode = ''full'' then
        Inr ((''location'' @ sep @ ''filename'' @ sep @ ''size'' @ sep @ ''last_modified'')
             @ [CHR 0x0A])
      else Inl UnboundLocalError)"

text \<open>
  One turn of the loop. The state is what has been written to \<open>f\<close> and the variable
  \<open>line\<close>, which keeps its value when neither branch assigns it.
\<close>

definition list_one ::
  "filesystem \<Rightarrow> (path \<Rightarrow> 'f stat_result) \<Rightarrow> ('f \<Rightarrow> string) \<Rightarrow> path \<Rightarrow> string \<Rightarrow> string
     \<Rightarrow> string \<Rightarrow> string \<times> string \<Rightarrow> string \<times> string" where
  "list_one fs os_stat str_float src mode sep item st =
     (case st of (written, line) \<Rightarrow>
        let file_path = join src item in
        if isfile fs file_path then
          let line1 =
                (if mode = ''simple'' then item
                 else if mode = ''full'' then
                   let file_info = os_stat file_path
                   in src @ sep @ item @ sep @ str_int (int (st_size file_info)) @ sep
                        @ str_float (st_mtime file_info)
                 else line);
              line2 = line1 @ [CHR 0x0A]
          in (written @ line2, line2)
        else (written, line))"

definition list_files ::
  "filesystem \<Rightarrow> (path \<Rightarrow> 'f stat_result) \<Rightarrow> ('f \<Rightarrow> string) \<Rightarrow> string list \<Rightarrow> path
     \<Rightarrow> string \<Rightarrow> path \<Rightarrow> string \<Rightarrow> status \<times> filesystem" where
  "list_files fs os_stat str_float listdir src mode loc sep =
     (case open_w fs loc of
        Inl e \<Rightarrow> (Raised e, fs)
      | Inr fs1 \<Rightarrow>
          (case header mode sep of
             Inl e \<Rightarrow> (Raised e, fs1)
           | Inr line \<Rightarrow>
               (case foldl (\<lambda>st item. list_one fs1 os_stat str_float src mode sep item st)
                       (line, line) listdir of
                  (written, line') \<Rightarrow> (Ok, fs1(loc \<mapsto> File written)))))"

section \<open>Notions of the specification\<close>

text \<open>
  The extension as the specification words it: the text after the last dot of the file
  name, and the empty string when the name has no dot.
\<close>

definition text_after_last_dot :: "string \<Rightarrow> string" where
  "text_after_last_dot name =
     (if CHR ''.'' \<in> set name then rev (takeWhile (\<lambda>c. c \<noteq> CHR ''.'') (rev name)) else [])"

text \<open>What stands before the last dot of a name (nothing, when the name has no dot).\<close>

definition before_last_dot :: "string \<Rightarrow> string" where
  "before_last_dot name = rev (drop 1 (dropWhile (\<lambda>c. c \<noteq> CHR ''.'') (rev name)))"

text \<open>Reading a decimal numeral back; it shows that \<open>str\<close> gives different numbers different texts.\<close>

definition nat_of_digits :: "string \<Rightarrow> nat" where
  "nat_of_digits s = foldl (\<lambda>a c. 10 * a + (of_char c - 48)) 0 s"

text \<open>
  The files the specification says are copied: those of the tree, in the order of the
  enumeration, whose extension equals the filter case-insensitively; all of them when
  there is no filter.
\<close>

definition selected :: "string option \<Rightarrow> walk \<Rightarrow> (path \<times> string) list" where
  "selected ext walk =
     concat (map (\<lambda>(root, subFolders, files).
                    map (\<lambda>filename. (root, filename))
                      (filter (\<lambda>filename.
                                 case ext of None \<Rightarrow> True
                                 | Some e \<Rightarrow> str_lower (extension_of filename) = str_lower e)
                         files))
                 walk)"

text \<open>Copying each file of a list, whatever its extension, stopping at the first exception.\<close>

fun copy_each ::
  "path \<Rightarrow> (path \<times> string) list \<Rightarrow> filesystem \<times> nat \<Rightarrow> (status \<times> filesystem \<times> nat) option" where
  "copy_each dest [] st = Some (Ok, st)"
| "copy_each dest ((root, filename) # rest) st =
     (case copy_one root dest None filename st of
        None \<Rightarrow> None
      | Some (Raised e, st') \<Rightarrow> Some (Raised e, st')
      | Some (Ok, st') \<Rightarrow> copy_each dest rest st')"

text \<open>
  \<open>grown fs fs' n\<close>: \<open>fs'\<close> is \<open>fs\<close> with every entry of \<open>fs\<close> as it was and \<open>n\<close>
  regular files at paths that \<open>fs\<close> did not have.
\<close>

definition created :: "filesystem \<Rightarrow> filesystem \<Rightarrow> path set" where
  "created fs fs' = {p. fs p = None \<and> fs' p \<noteq> None}"

definition grown :: "filesystem \<Rightarrow> filesystem \<Rightarrow> nat \<Rightarrow> bool" where
  "grown fs fs' n =
     ((\<forall>p. fs p \<noteq> None \<longrightarrow> fs' p = fs p)
      \<and> (\<forall>p \<in> created fs fs'. isfile fs' p)
      \<and> finite (created fs fs') \<and> card (created fs fs') = n)"


definition regular_files :: "filesystem \<Rightarrow> path \<Rightarrow> string list \<Rightarrow> string list" where
  "regular_files fs src listdir = filter (\<lambda>item. isfile fs (join src item)) listdir"

fun numbered :: "int \<Rightarrow> 'a list \<Rightarrow> (int \<times> 'a) list" where
  "numbered seq [] = []"
| "numbered seq (x # xs) = (seq, x) # numbered (seq + 1) xs"

definition new_name :: "string \<Rightarrow> int \<Rightarrow> int \<Rightarrow> string \<Rightarrow> string" where
  "new_name stem padding seq item = stem @ ''_'' @ zfill (str_int seq) padding @ snd (splitext item)"

definition rename_plan ::
  "filesystem \<Rightarrow> string list \<Rightarrow> path \<Rightarrow> string \<Rightarrow> int \<Rightarrow> int \<Rightarrow> (path \<times> path) list" where
  "rename_plan fs listdir src stem padding start_num =
     map (\<lambda>(seq, item). (join src item, join src (new_name stem padding seq item)))
       (numbered start_num (regular_files fs src listdir))"

text \<open>Carrying out a list of renames; the result counts those that were done.\<close>

fun run_plan :: "(path \<times> path) list \<Rightarrow> filesystem \<Rightarrow> status \<times> filesystem \<times> nat" where
  "run_plan [] fs = (Ok, fs, 0)"
| "run_plan ((old, new) # rest) fs =
     (case os_rename fs old new of
        Inl e \<Rightarrow> (Raised e, fs, 0)
      | Inr fs' \<Rightarrow> (case run_plan rest fs' of (st, fs'', k) \<Rightarrow> (st, fs'', k + 1)))"

text \<open>
  What the specification says \<open>list_files\<close> writes: the header of the mode, then one row for
  each regular file of the listing, each line ended by a newline.
\<close>

definition manifest_header :: "string \<Rightarrow> string \<Rightarrow> string" where
  "manifest_header mode sep =
     (if mode = ''simple'' then ''file_name''
      else ''location'' @ sep @ ''filename'' @ sep @ ''size'' @ sep @ ''last_modified'')"

definition manifest_row ::
  "(path \<Rightarrow> 'f stat_result) \<Rightarrow> ('f \<Rightarrow> string) \<Rightarrow> path \<Rightarrow> string \<Rightarrow> string \<Rightarrow> string \<Rightarrow> string" where
  "manifest_row os_stat str_float src mode sep item =
     (if mode = ''simple'' then item
      else src @ sep @ item @ sep @ str_int (int (st_size (os_stat (join src item)))) @ sep
             @ str_float (st_mtime (os_stat (join src item))))"

definition manifest ::
  "filesystem \<Rightarrow> (path \<Rightarrow> 'f stat_result) \<Rightarrow> ('f \<Rightarrow> string) \<Rightarrow> string list \<Rightarrow> path \<Rightarrow> string
     \<Rightarrow> string \<Rightarrow> string" where
  "manifest fs os_stat str_float listdir src mode sep =
     concat (map (\<lambda>line. line @ [CHR 0x0A])
       (manifest_header mode sep
          # map (manifest_row os_stat str_float src mode sep) (regular_files fs src listdir)))"

text \<open>
  Two strings that differ only in letter case: of the same length and, at each position,
  the same character or a capital ASCII letter and its small form.
\<close>

definition is_upper :: "char \<Rightarrow> bool" where
  "is_upper c = (65 \<le> (of_char c :: nat) \<and> (of_char c :: nat) \<le> 90)"

definition same_letter :: "char \<Rightarrow> char \<Rightarrow> bool" where
  "same_letter c d = (c = d \<or> (is_upper c \<and> d = lower_char c) \<or> (is_upper d \<and> c = lower_char d))"

definition differ_only_in_case :: "string \<Rightarrow> string \<Rightarrow> bool" where
  "differ_only_in_case a b = list_all2 same_letter a b"



section \<open>Example inputs\<close>

text \<open>
  A source directory \<open>s\<close> with one file and a destination \<open>d\<close> where the plain name and the
  first numbered name are taken.
\<close>

definition example_fs :: filesystem where
  "example_fs =
     [''s'' \<mapsto> Dir, ''d'' \<mapsto> Dir, ''s/a.txt'' \<mapsto> File ''new'',
      ''d/a.txt'' \<mapsto> File ''old'', ''d/a0.txt'' \<mapsto> File ''old0'']"

text \<open>A file system in which every path is a regular file.\<close>

definition full_fs :: filesystem where
  "full_fs = (\<lambda>p. Some (File []))"

text \<open>What \<open>os.walk\<close> yields for \<open>s\<close>, and the file system after one and after two copies.\<close>

definition example_walk :: walk where
  "example_walk = [(''s'', [], [''a.txt''])]"

definition example_fs1 :: filesystem where
  "example_fs1 = example_fs(''d/a1.txt'' \<mapsto> File ''new'')"

definition example_fs2 :: filesystem where
  "example_fs2 = example_fs1(''d/a2.txt'' \<mapsto> File ''new'')"

text \<open>
  A directory \<open>d\<close> with two files and a subdirectory, in the order the host lists them, and
  an \<open>os.stat\<close> whose times are whole seconds printed the way Python prints a float.
\<close>

definition example_dir :: filesystem where
  "example_dir =
     [''d'' \<mapsto> Dir, ''d/a.txt'' \<mapsto> File ''xx'', ''d/sub'' \<mapsto> Dir, ''d/b.jpg'' \<mapsto> File ''yyy'']"

definition example_listing :: "string list" where
  "example_listing = [''a.txt'', ''sub'', ''b.jpg'']"

definition example_stat :: "path \<Rightarrow> nat stat_result" where
  "example_stat p =
     (case example_dir p of
        Some (File content) \<Rightarrow> \<lparr>st_size = length content, st_mtime = 42\<rparr>
      | _ \<Rightarrow> \<lparr>st_size = 4096, st_mtime = 42\<rparr>)"

definition example_str_float :: "nat \<Rightarrow> string" where
  "example_str_float t = str_nat t @ ''.0''"







section \<open>Paths: what \<open>splitext\<close> and \<open>join\<close> compute\<close>

lemma split_at_last:
  assumes "c \<in> set p"
  shows "p = rev (drop 1 (dropWhile (\<lambda>x. x \<noteq> c) (rev p))) @ c # rev (takeWhile (\<lambda>x. x \<noteq> c) (rev p))"
proof -
  let ?P = "\<lambda>x. x \<noteq> c"
  from assms have "dropWhile ?P (rev p) \<noteq> []" by (simp add: dropWhile_eq_Nil_conv)
  moreover have "hd (dropWhile ?P (rev p)) = c"
    using calculation hd_dropWhile[of ?P "rev p"] by simp
  ultimately have d: "dropWhile ?P (rev p) = c # drop 1 (dropWhile ?P (rev p))"
    by (cases "dropWhile ?P (rev p)") auto
  have "rev p = takeWhile ?P (rev p) @ dropWhile ?P (rev p)" by simp
  then have "rev p = takeWhile ?P (rev p) @ c # drop 1 (dropWhile ?P (rev p))"
    using d by simp
  then have "rev (rev p) = rev (takeWhile ?P (rev p) @ c # drop 1 (dropWhile ?P (rev p)))"
    by (rule arg_cong)
  then show ?thesis by simp
qed

lemma rfind_char_absent: "c \<notin> set p \<Longrightarrow> rfind_char c p = - 1"
  by (simp add: rfind_char_def)

lemma rfind_char_present:
  assumes "c \<in> set p"
  shows "rfind_char c p = int (length (drop 1 (dropWhile (\<lambda>x. x \<noteq> c) (rev p))))"
proof -
  have "length p = length (rev (drop 1 (dropWhile (\<lambda>x. x \<noteq> c) (rev p))) @ c # rev (takeWhile (\<lambda>x. x \<noteq> c) (rev p)))"
    using split_at_last[OF assms] by (rule arg_cong)
  then show ?thesis using assms by (simp add: rfind_char_def)
qed

lemma rfind_char_ge: "- 1 \<le> rfind_char c p"
  by (cases "c \<in> set p") (simp_all add: rfind_char_present rfind_char_absent)

lemma splitext_no_dot:
  assumes "CHR ''.'' \<notin> set p"
  shows "splitext p = (p, [])"
proof -
  have "rfind_char CHR ''.'' p = - 1" using assms by (rule rfind_char_absent)
  moreover have "- 1 \<le> rfind_char CHR ''/'' p" by (rule rfind_char_ge)
  ultimately have "\<not> rfind_char CHR ''.'' p > rfind_char CHR ''/'' p" by simp
  then show ?thesis by (simp add: splitext_def Let_def)
qed

lemma splitext_name:
  assumes "CHR ''/'' \<notin> set p" and "CHR ''.'' \<in> set p"
  shows "splitext p =
     (if (\<exists>c \<in> set (before_last_dot p). c \<noteq> CHR ''.'')
      then (before_last_dot p, CHR ''.'' # text_after_last_dot p)
      else (p, []))"
proof -
  let ?A = "before_last_dot p" and ?B = "text_after_last_dot p"
  have p: "p = ?A @ CHR ''.'' # ?B"
    using split_at_last[OF assms(2)] assms(2) by (simp add: before_last_dot_def text_after_last_dot_def)
  have dot: "rfind_char CHR ''.'' p = int (length ?A)"
    using rfind_char_present[OF assms(2)] by (simp add: before_last_dot_def)
  have sep: "rfind_char CHR ''/'' p = - 1"
    using assms(1) by (rule rfind_char_absent)
  have tk: "take (length ?A) p = ?A" by (subst p) simp
  have dr: "drop (length ?A) p = CHR ''.'' # ?B" by (subst p) simp
  show ?thesis
    by (simp add: splitext_def dot sep Let_def tk dr list_ex_iff)
qed

lemma extension_of_splitext:
  assumes "CHR ''/'' \<notin> set filename"
  shows "extension_of filename =
     (if (\<exists>c \<in> set (before_last_dot filename). c \<noteq> CHR ''.'')
      then text_after_last_dot filename else [])"
proof (cases "CHR ''.'' \<in> set filename")
  case True
  then show ?thesis using splitext_name[OF assms True] by (simp add: extension_of_def)
next
  case False
  then have "dropWhile (\<lambda>c. c \<noteq> CHR ''.'') (rev filename) = []"
    by auto
  then have "before_last_dot filename = []"
    by (simp only: before_last_dot_def drop_Nil rev.simps)
  then show ?thesis using False by (simp add: extension_of_def splitext_no_dot)
qed

lemma matches_iff:
  "matches ext filename =
     (case ext of None \<Rightarrow> True | Some e \<Rightarrow> str_lower (extension_of filename) = str_lower e)"
  by (simp add: matches_def iStr_eq_def iStr_init_def split: option.splits)

text \<open>
  C4 (as amended). For a file name (no separator in it) the extension that is compared
  with the filter is the text after the last dot when some character before that dot is
  not a dot; it is empty when the name has no dot and when only dots, or nothing, stand
  before the last dot. The comparison with the filter is between the lower-cased forms,
  and an absent filter matches every name.
\<close>

theorem extension_of_rule:
  assumes "CHR ''/'' \<notin> set filename"
  shows "extension_of filename =
           (if (\<exists>c \<in> set (before_last_dot filename). c \<noteq> CHR ''.'')
            then text_after_last_dot filename else [])
         \<and> matches (Some e) filename = (str_lower (extension_of filename) = str_lower e)
         \<and> matches None filename"
  using extension_of_splitext[OF assms] by (simp add: matches_iff)

theorem extension_of_rule_witness:
  "CHR ''/'' \<notin> set ''photo.tar.GZ''
   \<and> extension_of ''photo.tar.GZ'' = ''GZ''
   \<and> matches (Some ''gz'') ''photo.tar.GZ''
   \<and> extension_of ''..rc'' = []"
proof -
  have h: "CHR ''/'' \<notin> set ''photo.tar.GZ''" by simp
  have l: "str_lower ''GZ'' = str_lower ''gz''" by code_simp
  have h2: "CHR ''/'' \<notin> set ''..rc''" by simp
  show ?thesis
    using extension_of_rule[OF h, of "''gz''"] extension_of_rule[OF h2, of "[]"] l
    by (simp add: text_after_last_dot_def before_last_dot_def)
qed

text \<open>
  C4 as stated fails on a name with a single leading dot: \<open>splitext\<close> gives \<open>.name\<close> no
  extension, while the text after its last dot is \<open>name\<close>.
\<close>

theorem extension_leading_dot_counterexample:
  "extension_of ''.name'' = [] \<and> text_after_last_dot ''.name'' = ''name''
   \<and> extension_of ''.name'' \<noteq> text_after_last_dot ''.name''"
  by (simp add: extension_of_def splitext_def rfind_char_def text_after_last_dot_def)

section \<open>Decimal numerals and candidate names\<close>

lemma of_char_digit_char: "d < 10 \<Longrightarrow> of_char (digit_char d) = 48 + d"
  by (simp add: digit_char_def)

lemma nat_of_digits_snoc:
  "nat_of_digits (s @ [c]) = 10 * nat_of_digits s + (of_char c - 48)"
  by (simp add: nat_of_digits_def)

lemma nat_of_digits_str_nat: "nat_of_digits (str_nat n) = n"
proof (induction n rule: str_nat.induct)
  case (1 n)
  show ?case
  proof (cases "n < 10")
    case True
    then show ?thesis
      by (subst str_nat.simps) (simp add: nat_of_digits_def of_char_digit_char)
  next
    case False
    have "nat_of_digits (str_nat n)
            = nat_of_digits (str_nat (n div 10) @ [digit_char (n mod 10)])"
      using False by (subst str_nat.simps) simp
    also have "\<dots> = 10 * (n div 10) + n mod 10"
      using 1[OF False] by (simp add: nat_of_digits_snoc of_char_digit_char)
    finally show ?thesis by simp
  qed
qed

lemma str_nat_inject: "str_nat m = str_nat n \<Longrightarrow> m = n"
  by (metis nat_of_digits_str_nat)

lemma str_int_nat: "str_int (int n) = str_nat n"
  by (simp add: str_int_def)

lemma digit_char_not_sep: "d < 10 \<Longrightarrow> digit_char d \<noteq> CHR ''/''"
proof
  assume "d < 10" and "digit_char d = CHR ''/''"
  then have "(of_char (digit_char d) :: nat) = of_char CHR ''/''" by simp
  with \<open>d < 10\<close> show False by (simp add: of_char_digit_char)
qed

lemma str_nat_no_sep: "CHR ''/'' \<notin> set (str_nat n)"
proof (induction n rule: str_nat.induct)
  case (1 n)
  show ?case
  proof (cases "n < 10")
    case True
    then show ?thesis
      using digit_char_not_sep[of n] by (subst str_nat.simps) auto
  next
    case False
    then show ?thesis
      using 1[OF False] digit_char_not_sep[of "n mod 10"]
      by (subst str_nat.simps) auto
  qed
qed

lemma str_nat_not_Nil: "str_nat n \<noteq> []"
  by (subst str_nat.simps) simp

lemma splitext_append: "fst (splitext p) @ snd (splitext p) = p"
  by (simp add: splitext_def Let_def)

lemma splitext_fst_Nil: "fst (splitext p) = [] \<Longrightarrow> p = []"
  using rfind_char_ge[of "CHR ''/''" p]
  by (auto simp: splitext_def Let_def list_ex_iff split: if_splits)

lemma join_inject:
  "(take 1 x = ''/'') = (take 1 y = ''/'') \<Longrightarrow> join d x = join d y \<Longrightarrow> x = y"
  by (auto simp: join_def split: if_splits)

lemma take1_numbered:
  "(take 1 (b @ str_nat n @ e) = ''/'') = (take 1 b = ''/'')"
proof (cases b)
  case Nil
  obtain c cs where s: "str_nat n = c # cs" using str_nat_not_Nil[of n] by (cases "str_nat n") auto
  with str_nat_no_sep[of n] have "c \<noteq> CHR ''/''" by auto
  with Nil s show ?thesis by simp
next
  case (Cons a list)
  then show ?thesis by simp
qed

lemma candidate_inject:
  assumes "candidate dest filename m = candidate dest filename n"
  shows "m = n"
proof -
  let ?b = "fst (splitext filename)" and ?e = "snd (splitext filename)"
  have "(take 1 (?b @ str_nat m @ ?e) = ''/'') = (take 1 (?b @ str_nat n @ ?e) = ''/'')"
    by (simp only: take1_numbered)
  from join_inject[OF this] assms have "?b @ str_nat m @ ?e = ?b @ str_nat n @ ?e"
    by (simp add: candidate_def str_int_nat)
  then show ?thesis by (simp add: str_nat_inject)
qed

lemma candidate_not_plain: "candidate dest filename n \<noteq> join dest filename"
proof
  let ?b = "fst (splitext filename)" and ?e = "snd (splitext filename)"
  assume eq: "candidate dest filename n = join dest filename"
  have f: "filename = ?b @ ?e" by (simp add: splitext_append)
  have "(take 1 (?b @ str_nat n @ ?e) = ''/'') = (take 1 (?b @ ?e) = ''/'')"
  proof (cases "?b = []")
    case True
    then have "filename = []" by (rule splitext_fst_Nil)
    then have "?e = []" by (simp add: splitext_def rfind_char_def)
    with True show ?thesis using take1_numbered[of "[]" n "[]"] by simp
  next
    case False
    then show ?thesis by (cases ?b) auto
  qed
  from join_inject[OF this] eq f have "?b @ str_nat n @ ?e = ?b @ ?e"
    by (simp add: candidate_def str_int_nat)
  then show False by (simp add: str_nat_not_Nil)
qed

lemma isfile_dom: "isfile fs p \<Longrightarrow> p \<in> dom fs"
  by (auto simp: isfile_def split: option.splits)

lemma finite_free_candidate:
  assumes "finite (dom fs)"
  shows "\<exists>n. \<not> isfile fs (candidate dest filename n)"
proof (rule ccontr)
  assume "\<not> ?thesis"
  then have "range (candidate dest filename) \<subseteq> dom fs"
    by (auto dest: isfile_dom)
  with assms have "finite (range (candidate dest filename))"
    by (rule rev_finite_subset)
  moreover have "inj (candidate dest filename)"
    by (rule injI) (rule candidate_inject)
  ultimately show False
    using finite_imageD by blast
qed

section \<open>The probing loop\<close>

lemma probe_free:
  "\<not> isfile fs dest_path \<Longrightarrow> probe fs dest filename dest_path seq = Some dest_path"
  by (subst probe.simps) simp

lemma probe_step:
  "isfile fs dest_path \<Longrightarrow>
   probe fs dest filename dest_path seq
     = probe fs dest filename (candidate dest filename seq) (seq + 1)"
  by (subst probe.simps) simp

lemma probe_run:
  "\<forall>j<k. isfile fs (candidate dest filename (seq + j)) \<Longrightarrow>
   \<not> isfile fs (candidate dest filename (seq + k)) \<Longrightarrow>
   probe fs dest filename (candidate dest filename seq) (seq + 1)
     = Some (candidate dest filename (seq + k))"
proof (induction k arbitrary: seq)
  case 0
  then show ?case by (simp add: probe_free)
next
  case (Suc k)
  from Suc.prems(1) have here: "isfile fs (candidate dest filename seq)"
    by (metis add.right_neutral zero_less_Suc)
  have rest: "\<forall>j<k. isfile fs (candidate dest filename (Suc seq + j))"
  proof (intro allI impI)
    fix j assume "j < k"
    then have "Suc j < Suc k" by simp
    with Suc.prems(1) have "isfile fs (candidate dest filename (seq + Suc j))" by blast
    then show "isfile fs (candidate dest filename (Suc seq + j))" by simp
  qed
  have free: "\<not> isfile fs (candidate dest filename (Suc seq + k))"
    using Suc.prems(2) by simp
  have "probe fs dest filename (candidate dest filename seq) (seq + 1)
          = probe fs dest filename (candidate dest filename (Suc seq)) (Suc seq + 1)"
    using probe_step[OF here, of dest filename "seq + 1"] by simp
  also have "\<dots> = Some (candidate dest filename (Suc seq + k))"
    by (rule Suc.IH[OF rest free])
  finally show ?case by simp
qed

lemma probe_first_free:
  assumes "isfile fs (join dest filename)"
    and "\<forall>j<k. isfile fs (candidate dest filename j)"
    and "\<not> isfile fs (candidate dest filename k)"
  shows "probe fs dest filename (join dest filename) 0 = Some (candidate dest filename k)"
proof -
  have "probe fs dest filename (join dest filename) 0
          = probe fs dest filename (candidate dest filename 0) (0 + 1)"
    by (rule probe_step[OF assms(1)])
  also have "\<dots> = Some (candidate dest filename (0 + k))"
    by (rule probe_run) (use assms in simp_all)
  finally show ?thesis by simp
qed

lemma probe_Some_D:
  "probe fs dest filename dest_path seq = Some y \<Longrightarrow>
   \<not> isfile fs y \<and> (y = dest_path \<or> (\<exists>n\<ge>seq. y = candidate dest filename n))"
proof (induction fs dest filename dest_path seq y rule: probe.raw_induct[rotated 1, consumes 1])
  case (1 probe' fs dest filename dest_path seq y)
  show ?case
  proof (cases "isfile fs dest_path")
    case True
    with 1(2) have "probe' fs dest filename (candidate dest filename seq) (seq + 1) = Some y"
      by simp
    from 1(1)[OF this] show ?thesis
      by (metis Suc_eq_plus1 Suc_leD order_refl)
  next
    case False
    with 1(2) show ?thesis by simp
  qed
qed

lemma probe_never_ends:
  assumes "isfile fs dest_path" and "\<forall>n\<ge>seq. isfile fs (candidate dest filename n)"
  shows "probe fs dest filename dest_path seq = None"
proof (cases "probe fs dest filename dest_path seq")
  case None
  then show ?thesis .
next
  case (Some y)
  from probe_Some_D[OF Some] assms show ?thesis by auto
qed

lemma probe_least:
  assumes "isfile fs (join dest filename)" and "\<exists>n. \<not> isfile fs (candidate dest filename n)"
  shows "probe fs dest filename (join dest filename) 0
           = Some (candidate dest filename (LEAST n. \<not> isfile fs (candidate dest filename n)))"
proof -
  let ?k = "LEAST n. \<not> isfile fs (candidate dest filename n)"
  from assms(2) have free: "\<not> isfile fs (candidate dest filename ?k)"
    by (rule LeastI_ex)
  have "\<forall>j<?k. isfile fs (candidate dest filename j)"
    using not_less_Least by blast
  from probe_first_free[OF assms(1) this free] show ?thesis .
qed


subsection \<open>Growth of the file system\<close>

lemma grown_refl: "grown fs fs 0"
proof -
  have "created fs fs = {}" by (auto simp: created_def)
  then show ?thesis by (simp add: grown_def)
qed

lemma created_trans:
  assumes "\<forall>p. fs p \<noteq> None \<longrightarrow> fs1 p = fs p" and "\<forall>p. fs1 p \<noteq> None \<longrightarrow> fs2 p = fs1 p"
  shows "created fs fs2 = created fs fs1 \<union> created fs1 fs2"
    and "created fs fs1 \<inter> created fs1 fs2 = {}"
  using assms by (auto simp: created_def)

lemma grown_trans:
  assumes "grown fs fs1 a" and "grown fs1 fs2 b"
  shows "grown fs fs2 (a + b)"
proof -
  from assms have k1: "\<forall>p. fs p \<noteq> None \<longrightarrow> fs1 p = fs p"
    and k2: "\<forall>p. fs1 p \<noteq> None \<longrightarrow> fs2 p = fs1 p"
    by (simp_all add: grown_def)
  note u = created_trans[OF k1 k2]
  from assms have f1: "finite (created fs fs1)" and f2: "finite (created fs1 fs2)"
    and c1: "card (created fs fs1) = a" and c2: "card (created fs1 fs2) = b"
    by (simp_all add: grown_def)
  have keep: "\<forall>p. fs p \<noteq> None \<longrightarrow> fs2 p = fs p"
    using k1 k2 by metis
  have files: "\<forall>p \<in> created fs fs2. isfile fs2 p"
  proof
    fix p assume "p \<in> created fs fs2"
    then consider "p \<in> created fs fs1" | "p \<in> created fs1 fs2" using u(1) by auto
    then show "isfile fs2 p"
    proof cases
      case 1
      with assms(1) have "isfile fs1 p" by (simp add: grown_def)
      moreover from 1 have "fs1 p \<noteq> None" by (simp add: created_def)
      with k2 have "fs2 p = fs1 p" by simp
      ultimately show ?thesis by (simp add: isfile_def)
    next
      case 2
      with assms(2) show ?thesis by (simp add: grown_def)
    qed
  qed
  have "card (created fs fs2) = a + b"
    using card_Un_disjoint[OF f1 f2 u(2)] u(1) c1 c2 by simp
  with keep files f1 f2 u(1) show ?thesis by (simp add: grown_def)
qed

lemma grown_new_file:
  assumes "fs p = None"
  shows "grown fs (fs(p \<mapsto> File content)) 1"
proof -
  have "created fs (fs(p \<mapsto> File content)) = {p}"
    using assms by (auto simp: created_def)
  with assms show ?thesis by (auto simp: grown_def isfile_def)
qed

lemma grown_dom: "grown fs fs' n \<Longrightarrow> dom fs' = dom fs \<union> created fs fs'"
  by (auto simp: grown_def created_def dom_def)

lemma grown_finite: "grown fs fs' n \<Longrightarrow> finite (dom fs) \<Longrightarrow> finite (dom fs')"
  by (simp add: grown_dom) (simp add: grown_def)

lemma grown_isfile: "grown fs fs' n \<Longrightarrow> isfile fs p \<Longrightarrow> fs' p = fs p"
  by (auto simp: grown_def isfile_def split: option.splits)

lemma grown_changed:
  assumes "grown fs fs' n" and "fs' p \<noteq> fs p"
  shows "p \<in> created fs fs'"
proof -
  from assms have "fs p = None" by (auto simp: grown_def)
  with assms(2) show ?thesis by (auto simp: created_def)
qed

lemma created_new_files:
  assumes "grown fs fs' n"
  shows "created fs fs' = {p. isfile fs' p \<and> \<not> isfile fs p}"
proof (intro set_eqI iffI)
  fix p assume p: "p \<in> created fs fs'"
  with assms have "isfile fs' p" by (simp add: grown_def)
  moreover from p have "\<not> isfile fs p" by (simp add: created_def isfile_def)
  ultimately show "p \<in> {p. isfile fs' p \<and> \<not> isfile fs p}" by simp
next
  fix p assume "p \<in> {p. isfile fs' p \<and> \<not> isfile fs p}"
  then have a: "isfile fs' p" "\<not> isfile fs p" by simp_all
  have "fs p = None"
  proof (rule ccontr)
    assume "fs p \<noteq> None"
    with assms have "fs' p = fs p" by (simp add: grown_def)
    with a show False by (simp add: isfile_def)
  qed
  moreover from a(1) have "fs' p \<noteq> None"
    by (auto simp: isfile_def split: option.splits)
  ultimately show "p \<in> created fs fs'" by (simp add: created_def)
qed

subsection \<open>One copy\<close>

lemma copyfile_not_file_D:
  assumes "copyfile fs src dst = Inr fs'" and "\<not> isfile fs dst"
  shows "\<exists>content. fs src = Some (File content) \<and> fs dst = None
           \<and> fs' = fs(dst \<mapsto> File content)"
  using assms
  by (auto simp: copyfile_def isfile_def split: if_splits option.splits node.splits)

lemma copy_one_skip:
  "\<not> matches ext filename \<Longrightarrow> copy_one root dest ext filename st = Some (Ok, st)"
  by (cases st) (simp add: copy_one_def)

lemma matches_None: "matches None filename"
  by (simp add: matches_def)

lemma copy_one_filter:
  "matches ext filename \<Longrightarrow>
   copy_one root dest ext filename st = copy_one root dest None filename st"
  by (cases st) (simp add: copy_one_def matches_None)

lemma copy_one_D:
  assumes "copy_one root dest None filename (fs, c) = Some (st, fs', c')"
  shows "(st \<noteq> Ok \<and> fs' = fs \<and> c' = c)
       \<or> (st = Ok \<and> c' = c + 1 \<and>
           (\<exists>p content. \<not> isfile fs p \<and> fs p = None
              \<and> fs (join root filename) = Some (File content)
              \<and> fs' = fs(p \<mapsto> File content)
              \<and> (p = join dest filename \<or> (\<exists>n. p = candidate dest filename n))))"
proof -
  from assms obtain p where p: "probe fs dest filename (join dest filename) 0 = Some p"
    by (auto simp: copy_one_def matches_None split: option.splits)
  from probe_Some_D[OF p] have nf: "\<not> isfile fs p"
    and form: "p = join dest filename \<or> (\<exists>n. p = candidate dest filename n)"
    by auto
  show ?thesis
  proof (cases "copyfile fs (join root filename) p")
    case (Inl e)
    with assms p show ?thesis by (auto simp: copy_one_def matches_None)
  next
    case (Inr fs1)
    with assms p have r: "st = Ok" "fs' = fs1" "c' = c + 1"
      by (simp_all add: copy_one_def matches_None)
    from copyfile_not_file_D[OF Inr nf] r nf form show ?thesis by auto
  qed
qed


subsection \<open>The loops\<close>

lemma copy_each_append:
  "copy_each dest (xs @ ys) st =
     (case copy_each dest xs st of
        None \<Rightarrow> None
      | Some (Raised e, st') \<Rightarrow> Some (Raised e, st')
      | Some (Ok, st') \<Rightarrow> copy_each dest ys st')"
proof (induction xs arbitrary: st)
  case Nil
  show ?case by simp
next
  case (Cons x xs)
  obtain root filename where x: "x = (root, filename)" by (cases x)
  show ?case
    by (simp add: x Cons.IH split: option.splits prod.splits status.splits)
qed

lemma copy_files_each:
  "copy_files root dest ext files st
     = copy_each dest (map (\<lambda>filename. (root, filename)) (filter (matches ext) files)) st"
proof (induction files arbitrary: st)
  case Nil
  show ?case by simp
next
  case (Cons filename files)
  show ?case
  proof (cases "matches ext filename")
    case True
    then show ?thesis
      by (simp add: Cons.IH copy_one_filter[OF True] split: option.splits prod.splits status.splits)
  next
    case False
    then show ?thesis by (simp add: Cons.IH copy_one_skip)
  qed
qed

lemma selected_Cons:
  "selected ext ((root, subFolders, files) # rest)
     = map (\<lambda>filename. (root, filename)) (filter (matches ext) files) @ selected ext rest"
proof -
  have "matches ext = (\<lambda>filename. case ext of None \<Rightarrow> True
          | Some e \<Rightarrow> str_lower (extension_of filename) = str_lower e)"
    by (rule ext) (simp add: matches_iff)
  then show ?thesis by (simp add: selected_def)
qed

lemma copy_walk_each:
  "copy_walk walk dest ext st = copy_each dest (selected ext walk) st"
proof (induction walk arbitrary: st)
  case Nil
  show ?case by (simp add: selected_def)
next
  case (Cons t rest)
  obtain root subFolders files where t: "t = (root, subFolders, files)" by (cases t)
  show ?case
    by (simp add: t selected_Cons copy_each_append copy_files_each Cons.IH
        split: option.splits prod.splits status.splits)
qed

lemma copy_recursively_each:
  "copy_recursively fs walk dest ext = copy_each dest (selected ext walk) (fs, 0)"
  by (simp add: copy_recursively_def copy_walk_each)

lemma copy_each_grown:
  "copy_each dest sel (fs, c) = Some (st, fs', c') \<Longrightarrow>
   grown fs fs' (c' - c) \<and> c \<le> c' \<and> (st = Ok \<longrightarrow> c' = c + length sel)
   \<and> (\<forall>p \<in> created fs fs'. \<exists>(root, filename) \<in> set sel.
          p = join dest filename \<or> (\<exists>n. p = candidate dest filename n))"
proof (induction sel arbitrary: fs c)
  case Nil
  then show ?case by (auto simp: grown_refl created_def)
next
  case (Cons x sel)
  obtain root filename where x: "x = (root, filename)" by (cases x)
  from Cons.prems obtain st1 fs1 c1
    where one: "copy_one root dest None filename (fs, c) = Some (st1, fs1, c1)"
    by (auto simp: x split: option.splits)
  from copy_one_D[OF one]
  consider (stop) "st1 \<noteq> Ok" "fs1 = fs" "c1 = c"
    | (copied) p content where "st1 = Ok" "c1 = c + 1" "fs p = None"
        "fs1 = fs(p \<mapsto> File content)"
        "p = join dest filename \<or> (\<exists>n. p = candidate dest filename n)"
    by blast
  then show ?case
  proof cases
    case stop
    then obtain e where "st1 = Raised e" by (cases st1) auto
    with Cons.prems one stop have "st = Raised e" "fs' = fs" "c' = c"
      by (simp_all add: x)
    then show ?thesis by (auto simp: grown_refl created_def)
  next
    case copied
    with Cons.prems one have rest: "copy_each dest sel (fs1, c + 1) = Some (st, fs', c')"
      by (simp add: x)
    note ih = Cons.IH[OF rest]
    have g1: "grown fs fs1 1" using grown_new_file[of fs p content] copied(3,4) by (simp del: One_nat_def)
    from ih have g2: "grown fs1 fs' (c' - (c + 1))" and le: "c + 1 \<le> c'" by simp_all
    have "1 + (c' - (c + 1)) = c' - c" using le by simp
    with grown_trans[OF g1 g2] have g: "grown fs fs' (c' - c)" by (simp only:)
    have c1: "created fs fs1 = {p}" using copied(3,4) by (auto simp: created_def)
    have u: "created fs fs' = created fs fs1 \<union> created fs1 fs'"
      using g1 g2 by (intro created_trans(1)) (simp_all add: grown_def)
    have names: "\<forall>q \<in> created fs fs'. \<exists>(root, filename) \<in> set (x # sel).
          q = join dest filename \<or> (\<exists>n. q = candidate dest filename n)"
    proof
      fix q assume "q \<in> created fs fs'"
      with u c1 consider "q = p" | "q \<in> created fs1 fs'" by auto
      then show "\<exists>(root, filename) \<in> set (x # sel).
          q = join dest filename \<or> (\<exists>n. q = candidate dest filename n)"
      proof cases
        case 1
        with copied(5) show ?thesis by (auto simp: x)
      next
        case 2
        with ih show ?thesis by fastforce
      qed
    qed
    from ih g le names show ?thesis by simp
  qed
qed



lemma probe_reaches:
  "\<exists>fs'. finite (dom fs') \<and>
     probe fs' dest filename (join dest filename) 0 = Some (candidate dest filename k)"
proof -
  define taken where "taken = insert (join dest filename) (candidate dest filename ` {..<k})"
  define fs' :: filesystem where "fs' = (\<lambda>p. if p \<in> taken then Some (File []) else None)"
  have dom: "dom fs' = taken" by (auto simp: dom_def fs'_def)
  have occ: "\<And>p. isfile fs' p = (p \<in> taken)" by (simp add: isfile_def fs'_def)
  have "candidate dest filename k \<notin> taken"
    using candidate_not_plain[of dest filename k] candidate_inject[of dest filename k]
    by (auto simp: taken_def)
  then have free: "\<not> isfile fs' (candidate dest filename k)" by (simp add: occ)
  have plain: "isfile fs' (join dest filename)" by (simp add: occ taken_def)
  have below: "\<forall>j<k. isfile fs' (candidate dest filename j)" by (simp add: occ taken_def)
  have "finite (dom fs')" by (simp add: dom taken_def)
  with probe_first_free[OF plain below free] show ?thesis by blast
qed

lemma copy_one_matching:
  assumes "matches ext filename"
    and "probe fs dest filename (join dest filename) 0 = Some p"
  shows "copy_one root dest ext filename (fs, file_counter)
           = (case copyfile fs (join root filename) p of
                Inl e \<Rightarrow> Some (Raised e, fs, file_counter)
              | Inr fs' \<Rightarrow> Some (Ok, fs', file_counter + 1))"
  using assms by (simp add: copy_one_def)

lemma copyfile_new:
  assumes "fs src = Some (File content)" and "fs dst = None"
  shows "copyfile fs src dst = Inr (fs(dst \<mapsto> File content))"
proof -
  from assms have "src \<noteq> dst" by auto
  with assms show ?thesis by (simp add: copyfile_def)
qed

text \<open>
  C2. When the plain destination \<open>dest/filename\<close> is occupied, the names tried are
  \<open>base + str(0) + ext\<close>, \<open>base + str(1) + ext\<close>, ... in \<open>dest\<close>, where \<open>(base, ext)\<close> is
  \<open>splitext(filename)\<close> (so \<open>base + ext\<close> is the file name); the loop stops at the first of
  them that is not an existing regular file, and \<open>copyfile\<close> is called with that path, which
  then holds the content of the source.
\<close>

theorem probing_sequence:
  assumes "isfile fs (join dest filename)"
    and "\<forall>j<k. isfile fs (candidate dest filename j)"
    and "\<not> isfile fs (candidate dest filename k)"
  shows "probe fs dest filename (join dest filename) 0 = Some (candidate dest filename k)
     \<and> candidate dest filename k
         = join dest (fst (splitext filename) @ str_nat k @ snd (splitext filename))
     \<and> fst (splitext filename) @ snd (splitext filename) = filename
     \<and> (matches ext filename \<longrightarrow>
          copy_one root dest ext filename (fs, file_counter)
            = (case copyfile fs (join root filename) (candidate dest filename k) of
                 Inl e \<Rightarrow> Some (Raised e, fs, file_counter)
               | Inr fs' \<Rightarrow> Some (Ok, fs', file_counter + 1)))
     \<and> (matches ext filename \<and> fs (join root filename) = Some (File content)
          \<and> fs (candidate dest filename k) = None \<longrightarrow>
          copy_one root dest ext filename (fs, file_counter)
            = Some (Ok, fs(candidate dest filename k \<mapsto> File content), file_counter + 1))"
proof -
  have p: "probe fs dest filename (join dest filename) 0 = Some (candidate dest filename k)"
    by (rule probe_first_free[OF assms])
  have c: "candidate dest filename k
             = join dest (fst (splitext filename) @ str_nat k @ snd (splitext filename))"
    by (simp add: candidate_def str_int_nat)
  show ?thesis
    using p c
    by (auto simp: splitext_append copy_one_matching[OF _ p] copyfile_new)
qed

theorem probing_sequence_witness:
  "isfile example_fs (join ''d'' ''a.txt'')
   \<and> isfile example_fs (candidate ''d'' ''a.txt'' 0)
   \<and> \<not> isfile example_fs (candidate ''d'' ''a.txt'' 1)
   \<and> candidate ''d'' ''a.txt'' 1 = ''d/a1.txt''
   \<and> matches (Some ''TXT'') ''a.txt''
   \<and> copy_one ''s'' ''d'' (Some ''TXT'') ''a.txt'' (example_fs, 0)
       = Some (Ok, example_fs(''d/a1.txt'' \<mapsto> File ''new''), 1)"
proof -
  have h1: "isfile example_fs (join ''d'' ''a.txt'')" by code_simp
  have h0: "isfile example_fs (candidate ''d'' ''a.txt'' 0)" by code_simp
  then have h2: "\<forall>j<1. isfile example_fs (candidate ''d'' ''a.txt'' j)" by simp
  have h3: "\<not> isfile example_fs (candidate ''d'' ''a.txt'' 1)" by code_simp
  have c: "candidate ''d'' ''a.txt'' 1 = ''d/a1.txt''" by code_simp
  have m: "matches (Some ''TXT'') ''a.txt''" by code_simp
  have s: "example_fs (join ''s'' ''a.txt'') = Some (File ''new'')" by code_simp
  have n: "example_fs (candidate ''d'' ''a.txt'' 1) = None" by code_simp
  from probing_sequence[OF h1 h2 h3, where ext = "Some ''TXT''" and root = "''s''"
      and content = "''new''" and file_counter = 0] m s n
  have "copy_one ''s'' ''d'' (Some ''TXT'') ''a.txt'' (example_fs, 0)
          = Some (Ok, example_fs(candidate ''d'' ''a.txt'' 1 \<mapsto> File ''new''), 0 + 1)"
    by blast
  with h1 h0 h3 c m show ?thesis by simp
qed

text \<open>
  C9. The loop has no bound on its attempts. It returns the plain name when that is free;
  otherwise, as soon as some candidate is not an existing regular file, it ends at the first
  such candidate, which is always the case in a file system with finitely many entries;
  when the plain name and every candidate are occupied it never ends. Every candidate,
  however late, is the result in some finite file system.
\<close>

theorem probe_termination:
  "(\<not> isfile fs (join dest filename) \<longrightarrow>
      probe fs dest filename (join dest filename) 0 = Some (join dest filename))
   \<and> (isfile fs (join dest filename) \<and> (\<exists>n. \<not> isfile fs (candidate dest filename n)) \<longrightarrow>
      probe fs dest filename (join dest filename) 0
        = Some (candidate dest filename (LEAST n. \<not> isfile fs (candidate dest filename n))))
   \<and> (finite (dom fs) \<longrightarrow> (\<exists>p. probe fs dest filename (join dest filename) 0 = Some p))
   \<and> (isfile fs (join dest filename) \<and> (\<forall>n. isfile fs (candidate dest filename n)) \<longrightarrow>
      probe fs dest filename (join dest filename) 0 = None)
   \<and> (\<forall>k. \<exists>fs'. finite (dom fs') \<and>
         probe fs' dest filename (join dest filename) 0 = Some (candidate dest filename k))"
proof (intro conjI impI allI)
  assume "\<not> isfile fs (join dest filename)"
  then show "probe fs dest filename (join dest filename) 0 = Some (join dest filename)"
    by (rule probe_free)
next
  assume "isfile fs (join dest filename) \<and> (\<exists>n. \<not> isfile fs (candidate dest filename n))"
  then show "probe fs dest filename (join dest filename) 0
        = Some (candidate dest filename (LEAST n. \<not> isfile fs (candidate dest filename n)))"
    using probe_least by blast
next
  assume fin: "finite (dom fs)"
  show "\<exists>p. probe fs dest filename (join dest filename) 0 = Some p"
  proof (cases "isfile fs (join dest filename)")
    case True
    from probe_least[OF True finite_free_candidate[OF fin]] show ?thesis by blast
  next
    case False
    then show ?thesis by (blast intro: probe_free)
  qed
next
  assume "isfile fs (join dest filename) \<and> (\<forall>n. isfile fs (candidate dest filename n))"
  then show "probe fs dest filename (join dest filename) 0 = None"
    by (intro probe_never_ends) simp_all
next
  fix k
  show "\<exists>fs'. finite (dom fs') \<and>
          probe fs' dest filename (join dest filename) 0 = Some (candidate dest filename k)"
    by (rule probe_reaches)
qed

theorem probe_termination_witness:
  "probe Map.empty ''d'' ''a.txt'' (join ''d'' ''a.txt'') 0 = Some ''d/a.txt''
   \<and> finite (dom example_fs)
   \<and> probe example_fs ''d'' ''a.txt'' (join ''d'' ''a.txt'') 0 = Some ''d/a1.txt''
   \<and> probe full_fs ''d'' ''a.txt'' (join ''d'' ''a.txt'') 0 = None"
proof -
  have j: "join ''d'' ''a.txt'' = ''d/a.txt''" by code_simp
  have e: "\<not> isfile Map.empty (join ''d'' ''a.txt'')" by (simp add: isfile_def)
  have h1: "isfile example_fs (join ''d'' ''a.txt'')" by code_simp
  have h0: "isfile example_fs (candidate ''d'' ''a.txt'' 0)" by code_simp
  have h3: "\<not> isfile example_fs (candidate ''d'' ''a.txt'' 1)" by code_simp
  have c: "candidate ''d'' ''a.txt'' 1 = ''d/a1.txt''" by code_simp
  have l: "(LEAST n. \<not> isfile example_fs (candidate ''d'' ''a.txt'' n)) = 1"
  proof (rule Least_equality)
    show "\<not> isfile example_fs (candidate ''d'' ''a.txt'' 1)" by (rule h3)
  next
    fix y assume "\<not> isfile example_fs (candidate ''d'' ''a.txt'' y)"
    with h0 have "y \<noteq> 0" by (rule_tac notI) simp
    then show "1 \<le> y" by simp
  qed
  have fin: "finite (dom example_fs)" by (simp add: example_fs_def)
  have f: "isfile full_fs (join ''d'' ''a.txt'') \<and> (\<forall>n. isfile full_fs (candidate ''d'' ''a.txt'' n))"
    by (simp add: full_fs_def isfile_def)
  have r1: "probe Map.empty ''d'' ''a.txt'' (join ''d'' ''a.txt'') 0 = Some (join ''d'' ''a.txt'')"
    using probe_termination[of Map.empty "''d''" "''a.txt''"] e by blast
  have "probe example_fs ''d'' ''a.txt'' (join ''d'' ''a.txt'') 0
          = Some (candidate ''d'' ''a.txt'' (LEAST n. \<not> isfile example_fs (candidate ''d'' ''a.txt'' n)))"
    using probe_termination[of example_fs "''d''" "''a.txt''"] h1 h3 by blast
  then have r2: "probe example_fs ''d'' ''a.txt'' (join ''d'' ''a.txt'') 0 = Some ''d/a1.txt''"
    by (simp only: l c)
  have r3: "probe full_fs ''d'' ''a.txt'' (join ''d'' ''a.txt'') 0 = None"
    using probe_termination[of full_fs "''d''" "''a.txt''"] f by blast
  from r1 r2 r3 fin j show ?thesis by simp
qed

lemma copy_one_at:
  assumes "matches ext filename"
    and "probe fs dest filename (join dest filename) 0 = Some p"
    and "fs (join root filename) = Some (File content)"
    and "fs p = None"
  shows "copy_one root dest ext filename (fs, c) = Some (Ok, fs(p \<mapsto> File content), c + 1)"
  by (simp add: copy_one_matching[OF assms(1,2)] copyfile_new[OF assms(3,4)])

lemma example_run1:
  assumes "matches ext ''a.txt''"
  shows "copy_recursively example_fs example_walk ''d'' ext = Some (Ok, example_fs1, 1)"
proof -
  have p: "probe example_fs ''d'' ''a.txt'' (join ''d'' ''a.txt'') 0 = Some ''d/a1.txt''"
    by code_simp
  have s: "example_fs (join ''s'' ''a.txt'') = Some (File ''new'')" by code_simp
  have n: "example_fs ''d/a1.txt'' = None" by code_simp
  from copy_one_at[OF assms p s n, of 0] show ?thesis
    by (simp add: copy_recursively_def example_walk_def example_fs1_def)
qed

lemma example_run2:
  assumes "matches ext ''a.txt''"
  shows "copy_recursively example_fs1 example_walk ''d'' ext = Some (Ok, example_fs2, 1)"
proof -
  have p: "probe example_fs1 ''d'' ''a.txt'' (join ''d'' ''a.txt'') 0 = Some ''d/a2.txt''"
    by code_simp
  have s: "example_fs1 (join ''s'' ''a.txt'') = Some (File ''new'')" by code_simp
  have n: "example_fs1 ''d/a2.txt'' = None" by code_simp
  from copy_one_at[OF assms p s n, of 0] show ?thesis
    by (simp add: copy_recursively_def example_walk_def example_fs2_def)
qed

lemma copy_recursively_grown:
  assumes "copy_recursively fs walk dest ext = Some (st, fs', n)"
  shows "grown fs fs' n"
    and "st = Ok \<Longrightarrow> n = length (selected ext walk)"
    and "\<forall>p \<in> created fs fs'. \<exists>(root, filename) \<in> set (selected ext walk).
           p = join dest filename \<or> (\<exists>k. p = candidate dest filename k)"
  using copy_each_grown[of dest "selected ext walk" fs 0 st fs' n] assms
  by (simp_all add: copy_recursively_each)

text \<open>
  C1. A copy writes to a path that is not an existing regular file when \<open>copyfile\<close> is
  called. So a call of \<open>copy_recursively\<close>, whether it returns or is stopped by an
  exception, leaves every regular file that existed as it was, and what it changes are
  paths that held no regular file before and hold one after. Run a second time on the
  result, it leaves the files of the first run and the files written by the first run as
  they are, and writes to paths that the first run had not touched and that held no file.
\<close>

theorem never_overwrites:
  "(matches ext filename \<and> copy_one root dest ext filename (fs, c) = Some (Ok, fs', c') \<longrightarrow>
      (\<exists>p content. \<not> isfile fs p \<and> fs' = fs(p \<mapsto> File content)))
   \<and> (copy_recursively fs walk dest ext = Some (st, fs1, n1) \<longrightarrow>
        (\<forall>p. isfile fs p \<longrightarrow> fs1 p = fs p)
        \<and> (\<forall>p. fs1 p \<noteq> fs p \<longrightarrow> \<not> isfile fs p \<and> isfile fs1 p))
   \<and> (copy_recursively fs walk dest ext = Some (st, fs1, n1)
      \<and> copy_recursively fs1 walk' dest ext = Some (st', fs2, n2) \<longrightarrow>
        (\<forall>p. isfile fs1 p \<longrightarrow> fs2 p = fs1 p)
        \<and> (\<forall>p. fs1 p \<noteq> fs p \<longrightarrow> fs2 p = fs1 p)
        \<and> (\<forall>p. fs2 p \<noteq> fs1 p \<longrightarrow> fs1 p = fs p \<and> \<not> isfile fs1 p \<and> isfile fs2 p))"
proof -
  have one: "\<exists>p content. \<not> isfile fs p \<and> fs' = fs(p \<mapsto> File content)"
    if m: "matches ext filename"
      and r: "copy_one root dest ext filename (fs, c) = Some (Ok, fs', c')"
  proof -
    from r have "copy_one root dest None filename (fs, c) = Some (Ok, fs', c')"
      by (simp add: copy_one_filter[OF m])
    from copy_one_D[OF this] show ?thesis by auto
  qed
  have run: "(\<forall>p. isfile a p \<longrightarrow> b p = a p) \<and> (\<forall>p. b p \<noteq> a p \<longrightarrow> \<not> isfile a p \<and> isfile b p)"
    if "copy_recursively a w dest ext = Some (s, b, n)" for a b w s n
  proof -
    from copy_recursively_grown(1)[OF that] have g: "grown a b n" .
    have "\<not> isfile a p \<and> isfile b p" if "b p \<noteq> a p" for p
    proof -
      from grown_changed[OF g that] have "p \<in> created a b" .
      with g show ?thesis by (simp add: created_new_files[OF g])
    qed
    with grown_isfile[OF g] show ?thesis by blast
  qed
  have two: "(\<forall>p. isfile fs1 p \<longrightarrow> fs2 p = fs1 p)
        \<and> (\<forall>p. fs1 p \<noteq> fs p \<longrightarrow> fs2 p = fs1 p)
        \<and> (\<forall>p. fs2 p \<noteq> fs1 p \<longrightarrow> fs1 p = fs p \<and> \<not> isfile fs1 p \<and> isfile fs2 p)"
    if r1: "copy_recursively fs walk dest ext = Some (st, fs1, n1)"
      and r2: "copy_recursively fs1 walk' dest ext = Some (st', fs2, n2)"
    using run[OF r1] run[OF r2] by metis
  from one run two show ?thesis by blast
qed

theorem never_overwrites_witness:
  "matches None ''a.txt''
   \<and> copy_recursively example_fs example_walk ''d'' None = Some (Ok, example_fs1, 1)
   \<and> copy_recursively example_fs1 example_walk ''d'' None = Some (Ok, example_fs2, 1)
   \<and> example_fs2 ''d/a.txt'' = Some (File ''old'')
   \<and> example_fs2 ''d/a0.txt'' = Some (File ''old0'')
   \<and> example_fs2 ''d/a1.txt'' = Some (File ''new'')
   \<and> example_fs2 ''d/a2.txt'' \<noteq> example_fs1 ''d/a2.txt''
   \<and> example_fs1 ''d/a2.txt'' = example_fs ''d/a2.txt''"
proof -
  have m: "matches None ''a.txt''" by (rule matches_None)
  note r1 = example_run1[OF m] and r2 = example_run2[OF m]
  have c1: "copy_one ''s'' ''d'' None ''a.txt'' (example_fs, 0) = Some (Ok, example_fs1, 1)"
    using r1 by (simp add: copy_recursively_def example_walk_def split: option.splits prod.splits status.splits)
  note t = never_overwrites[of None "''a.txt''" "''s''" "''d''" example_fs 0 example_fs1 1
      example_walk Ok example_fs1 1 example_walk Ok example_fs2 1]
  have f1: "isfile example_fs1 ''d/a.txt''" and f2: "isfile example_fs1 ''d/a0.txt''"
    by code_simp+
  have f3: "example_fs1 ''d/a1.txt'' \<noteq> example_fs ''d/a1.txt''"
    by (simp add: example_fs1_def example_fs_def)
  have f4: "example_fs2 ''d/a2.txt'' \<noteq> example_fs1 ''d/a2.txt''"
    by (simp add: example_fs2_def example_fs1_def example_fs_def)
  from t m c1 r1 r2 have
    keep: "\<forall>p. isfile example_fs1 p \<longrightarrow> example_fs2 p = example_fs1 p"
    and kept: "\<forall>p. example_fs1 p \<noteq> example_fs p \<longrightarrow> example_fs2 p = example_fs1 p"
    and fresh: "\<forall>p. example_fs2 p \<noteq> example_fs1 p \<longrightarrow> example_fs1 p = example_fs p"
    by blast+
  from keep f1 have "example_fs2 ''d/a.txt'' = example_fs1 ''d/a.txt''" by blast
  moreover from keep f2 have "example_fs2 ''d/a0.txt'' = example_fs1 ''d/a0.txt''" by blast
  moreover from kept f3 have "example_fs2 ''d/a1.txt'' = example_fs1 ''d/a1.txt''" by blast
  moreover from fresh f4 have "example_fs1 ''d/a2.txt'' = example_fs ''d/a2.txt''" by blast
  ultimately show ?thesis
    using m r1 r2 f4 by (simp add: example_fs1_def example_fs_def)
qed




section \<open>\<open>rename_sequencial\<close>\<close>






lemma run_plan_Ok_length:
  "run_plan plan fs = (Ok, fs', k) \<Longrightarrow> k = length plan"
proof (induction plan arbitrary: fs fs' k)
  case Nil
  then show ?case by simp
next
  case (Cons a plan)
  obtain old new where a: "a = (old, new)" by (cases a)
  from Cons.prems obtain fs1 where r: "os_rename fs old new = Inr fs1"
    by (auto simp: a split: sum.splits)
  obtain st2 fs2 k2 where rp: "run_plan plan fs1 = (st2, fs2, k2)"
    by (cases "run_plan plan fs1") auto
  with Cons.prems r have "st2 = Ok" "fs2 = fs'" "k = k2 + 1" by (simp_all add: a)
  with Cons.IH[of fs1 fs2 k2] rp show ?case by simp
qed































text \<open>
  C3. The number in the log line \<open>"%d files renamed"\<close> is the final \<open>seq\<close>, not the number
  of renames: with \<open>start_num = 10\<close> and two regular files, two renames are done and 12 is
  logged.
\<close>

theorem rename_sequencial_logs_seq:
  "fst (rename_sequencial example_dir example_listing ''d'' ''img'' 3 10) = Ok
   \<and> length (rename_plan example_dir example_listing ''d'' ''img'' 3 10) = 2
   \<and> length (regular_files example_dir ''d'' example_listing) = 2
   \<and> snd (snd (rename_sequencial example_dir example_listing ''d'' ''img'' 3 10)) = 12"
  by code_simp

section \<open>\<open>list_files\<close>\<close>

lemma isfile_truncated: "isfile (fs(loc \<mapsto> File [])) p = (p = loc \<or> isfile fs p)"
  by (simp add: isfile_def)

lemma open_w_ok: "fs loc \<noteq> Some Dir \<Longrightarrow> open_w fs loc = Inr (fs(loc \<mapsto> File []))"
  by (auto simp: open_w_def split: option.splits node.splits)

lemma list_rows_written:
  assumes "mode = ''simple'' \<or> mode = ''full''"
  shows "fst (foldl (\<lambda>st item. list_one fs os_stat str_float src mode sep item st)
                (written, line) listdir)
         = written @ concat (map (\<lambda>line. line @ [CHR 0x0A])
                       (map (manifest_row os_stat str_float src mode sep)
                          (regular_files fs src listdir)))"
proof (induction listdir arbitrary: written line)
  case Nil
  show ?case by (simp add: regular_files_def)
next
  case (Cons item listdir)
  obtain w l where step: "list_one fs os_stat str_float src mode sep item (written, line) = (w, l)"
    by (cases "list_one fs os_stat str_float src mode sep item (written, line)")
  have w: "w = (if isfile fs (join src item)
                then written @ manifest_row os_stat str_float src mode sep item @ [CHR 0x0A]
                else written)"
    using step assms by (auto simp: list_one_def manifest_row_def Let_def split: if_splits)
  show ?case
    using Cons.IH[of w l] by (simp add: step w regular_files_def)
qed

lemma list_files_known_mode:
  assumes "mode = ''simple'' \<or> mode = ''full''" and "fs loc \<noteq> Some Dir"
  shows "list_files fs os_stat str_float listdir src mode loc sep
           = (Ok, fs(loc \<mapsto> File (manifest (fs(loc \<mapsto> File [])) os_stat str_float listdir
                                      src mode sep)))"
proof -
  let ?fs1 = "fs(loc \<mapsto> File [])"
  have h: "header mode sep = Inr (manifest_header mode sep @ [CHR 0x0A])"
    using assms(1) by (auto simp: header_def manifest_header_def)
  obtain written line' where f:
    "foldl (\<lambda>st item. list_one ?fs1 os_stat str_float src mode sep item st)
       (manifest_header mode sep @ [CHR 0x0A], manifest_header mode sep @ [CHR 0x0A]) listdir
     = (written, line')"
    by (cases "foldl (\<lambda>st item. list_one ?fs1 os_stat str_float src mode sep item st)
       (manifest_header mode sep @ [CHR 0x0A], manifest_header mode sep @ [CHR 0x0A]) listdir")
  from list_rows_written[OF assms(1), of ?fs1 os_stat str_float src sep
      "manifest_header mode sep @ [CHR 0x0A]" "manifest_header mode sep @ [CHR 0x0A]" listdir] f
  have "written = manifest ?fs1 os_stat str_float listdir src mode sep"
    by (simp add: manifest_def)
  then show ?thesis
    using open_w_ok[of fs loc] assms(2) by (simp add: list_files_def h f)
qed

lemma list_files_unknown_mode:
  assumes "mode \<noteq> ''simple''" and "mode \<noteq> ''full''" and "fs loc \<noteq> Some Dir"
  shows "list_files fs os_stat str_float listdir src mode loc sep
           = (Raised UnboundLocalError, fs(loc \<mapsto> File []))"
  using assms open_w_ok[of fs loc] by (simp add: list_files_def header_def)

text \<open>
  C7. In mode \<open>simple\<close> or \<open>full\<close>, with an output path that can be opened, \<open>list_files\<close>
  returns and leaves at the output path exactly: the header of the mode and a newline, then,
  for each entry of the listing that is a regular file, in the order of the listing, its row
  and a newline (the bare name, or directory, name, size and time joined by the separator).
  Other entries give no row. What the output file held before plays no part: the listing is
  read against the file system in which the output file has just been truncated.
\<close>

theorem list_files_manifest:
  assumes "mode = ''simple'' \<or> mode = ''full''" and "fs loc \<noteq> Some Dir"
  shows "list_files fs os_stat str_float listdir src mode loc sep
           = (Ok, fs(loc \<mapsto> File (manifest (fs(loc \<mapsto> File [])) os_stat str_float listdir
                                      src mode sep)))
         \<and> list_files (fs(loc \<mapsto> File old)) os_stat str_float listdir src mode loc sep
           = list_files fs os_stat str_float listdir src mode loc sep
         \<and> isfile (fs(loc \<mapsto> File [])) p = (p = loc \<or> isfile fs p)"
proof -
  have "list_files (fs(loc \<mapsto> File old)) os_stat str_float listdir src mode loc sep
          = (Ok, fs(loc \<mapsto> File (manifest (fs(loc \<mapsto> File [])) os_stat str_float listdir
                                      src mode sep)))"
    using list_files_known_mode[where mode = mode and fs = "fs(loc \<mapsto> File old)" and loc = loc
        and os_stat = os_stat and str_float = str_float and listdir = listdir and src = src
        and sep = sep] assms(1)
    by simp
  moreover have "list_files fs os_stat str_float listdir src mode loc sep
          = (Ok, fs(loc \<mapsto> File (manifest (fs(loc \<mapsto> File [])) os_stat str_float listdir
                                      src mode sep)))"
    using list_files_known_mode[where mode = mode and fs = fs and loc = loc
        and os_stat = os_stat and str_float = str_float and listdir = listdir and src = src
        and sep = sep] assms
    by simp
  ultimately show ?thesis by (simp add: isfile_truncated)
qed

theorem list_files_manifest_witness:
  "example_dir ''out.csv'' \<noteq> Some Dir
   \<and> list_files example_dir example_stat example_str_float example_listing
         ''d'' ''simple'' ''out.csv'' '',''
       = (Ok, example_dir(''out.csv'' \<mapsto> File (''file_name'' @ [CHR 0x0A]
                @ ''a.txt'' @ [CHR 0x0A] @ ''b.jpg'' @ [CHR 0x0A])))
   \<and> list_files example_dir example_stat example_str_float example_listing
         ''d'' ''full'' ''out.csv'' '',''
       = (Ok, example_dir(''out.csv'' \<mapsto> File (''location,filename,size,last_modified'' @ [CHR 0x0A]
                @ ''d,a.txt,2,42.0'' @ [CHR 0x0A] @ ''d,b.jpg,3,42.0'' @ [CHR 0x0A])))"
proof -
  have d: "example_dir ''out.csv'' \<noteq> Some Dir" by (simp add: example_dir_def)
  have m1: "manifest (example_dir(''out.csv'' \<mapsto> File [])) example_stat example_str_float
              example_listing ''d'' ''simple'' '',''
            = ''file_name'' @ [CHR 0x0A] @ ''a.txt'' @ [CHR 0x0A] @ ''b.jpg'' @ [CHR 0x0A]"
    by code_simp
  have m2: "manifest (example_dir(''out.csv'' \<mapsto> File [])) example_stat example_str_float
              example_listing ''d'' ''full'' '',''
            = ''location,filename,size,last_modified'' @ [CHR 0x0A]
                @ ''d,a.txt,2,42.0'' @ [CHR 0x0A] @ ''d,b.jpg,3,42.0'' @ [CHR 0x0A]"
    by code_simp
  have s: "''simple'' = ''simple'' \<or> ''simple'' = ''full''" by simp
  have f: "''full'' = ''simple'' \<or> ''full'' = ''full''" by simp
  from list_files_manifest[where mode = "''simple''" and fs = example_dir and loc = "''out.csv''"
        and os_stat = example_stat and str_float = example_str_float
        and listdir = example_listing and src = "''d''" and sep = "'',''"] s d
  have r1: "list_files example_dir example_stat example_str_float example_listing
         ''d'' ''simple'' ''out.csv'' '',''
       = (Ok, example_dir(''out.csv'' \<mapsto> File (manifest (example_dir(''out.csv'' \<mapsto> File []))
            example_stat example_str_float example_listing ''d'' ''simple'' '','')))"
    by blast
  from list_files_manifest[where mode = "''full''" and fs = example_dir and loc = "''out.csv''"
        and os_stat = example_stat and str_float = example_str_float
        and listdir = example_listing and src = "''d''" and sep = "'',''"] f d
  have r2: "list_files example_dir example_stat example_str_float example_listing
         ''d'' ''full'' ''out.csv'' '',''
       = (Ok, example_dir(''out.csv'' \<mapsto> File (manifest (example_dir(''out.csv'' \<mapsto> File []))
            example_stat example_str_float example_listing ''d'' ''full'' '','')))"
    by blast
  from d r1[unfolded m1] r2[unfolded m2] show ?thesis by blast
qed

text \<open>
  C10. With any other mode, and an output path that can be opened, \<open>list_files\<close> raises
  \<open>UnboundLocalError\<close> at the header, after the output file has been opened for writing:
  the file is left empty, created if it did not exist, with no header and no row.
\<close>

theorem list_files_other_mode:
  assumes "mode \<noteq> ''simple''" and "mode \<noteq> ''full''" and "fs loc \<noteq> Some Dir"
  shows "list_files fs os_stat str_float listdir src mode loc sep
           = (Raised UnboundLocalError, fs(loc \<mapsto> File []))"
  using assms by (rule list_files_unknown_mode)

theorem list_files_other_mode_witness:
  "''csv'' \<noteq> ''simple'' \<and> ''csv'' \<noteq> ''full'' \<and> example_dir ''d/a.txt'' = Some (File ''xx'')
   \<and> list_files example_dir example_stat example_str_float example_listing
         ''d'' ''csv'' ''d/a.txt'' '',''
       = (Raised UnboundLocalError, example_dir(''d/a.txt'' \<mapsto> File []))
   \<and> example_dir ''out.csv'' = None
   \<and> list_files example_dir example_stat example_str_float example_listing
         ''d'' ''csv'' ''out.csv'' '',''
       = (Raised UnboundLocalError, example_dir(''out.csv'' \<mapsto> File []))"
proof -
  have m: "''csv'' \<noteq> ''simple''" "''csv'' \<noteq> ''full''" by simp_all
  have a: "example_dir ''d/a.txt'' = Some (File ''xx'')" by (simp add: example_dir_def)
  have o: "example_dir ''out.csv'' = None" by (simp add: example_dir_def)
  from a have a': "example_dir ''d/a.txt'' \<noteq> Some Dir" by simp
  from o have o': "example_dir ''out.csv'' \<noteq> Some Dir" by simp
  from list_files_other_mode[where mode = "''csv''" and fs = example_dir and loc = "''d/a.txt''"
        and os_stat = example_stat and str_float = example_str_float
        and listdir = example_listing and src = "''d''" and sep = "'',''"]
    list_files_other_mode[where mode = "''csv''" and fs = example_dir and loc = "''out.csv''"
        and os_stat = example_stat and str_float = example_str_float
        and listdir = example_listing and src = "''d''" and sep = "'',''"]
    m a o a' o'
  show ?thesis by blast
qed

section \<open>\<open>iStr\<close>\<close>

lemma lower_char_idem: "lower_char (lower_char c) = lower_char c"
proof (cases "is_upper c")
  case True
  then have "(of_char (char_of (of_char c + 32 :: nat)) :: nat) = of_char c + 32"
    by (simp add: is_upper_def)
  with True show ?thesis by (simp add: lower_char_def Let_def is_upper_def)
next
  case False
  then have "lower_char c = c" by (auto simp: lower_char_def Let_def is_upper_def)
  then show ?thesis by simp
qed

lemma same_letter_lower: "same_letter c d \<Longrightarrow> lower_char c = lower_char d"
  by (auto simp: same_letter_def lower_char_idem)

lemma differ_only_in_case_lower:
  "differ_only_in_case a b \<Longrightarrow> str_lower a = str_lower b"
  unfolding differ_only_in_case_def str_lower_def
  by (induction a b rule: list_all2_induct) (simp_all add: same_letter_lower)

lemma adjust_indices_default: "adjust_indices n None None = (0, int n)"
  by (simp add: adjust_indices_def)

lemma slice_all: "slice s 0 (int (length s)) = s"
  by (simp add: slice_def)

lemma find_first_self: "find_first s s = Some 0"
  by (cases s) simp_all

lemma find_last_short: "length t < length sub \<Longrightarrow> find_last sub t = None"
proof (induction t)
  case Nil
  then show ?case by auto
next
  case (Cons c t)
  from Cons.prems have "length (take (length sub) (c # t)) \<noteq> length sub" by simp
  then have "take (length sub) (c # t) \<noteq> sub" by metis
  moreover from Cons have "find_last sub t = None" by simp
  ultimately show ?case by simp
qed

lemma find_last_self: "find_last s s = Some 0"
  by (cases s) (simp_all add: find_last_short)

lemma count_occ_self: "count_occ s s = 1"
  by (cases s) simp_all

lemma str_ops_self:
  "str_contains s s"
  "str_find s s None None = 0"
  "str_rfind s s None None = 0"
  "str_index s s None None = Inr 0"
  "str_rindex s s None None = Inr 0"
  "str_count s s None None = 1"
  "str_startswith s s None None"
  "str_endswith s s None None"
  by (simp_all add: str_contains_def str_find_def str_rfind_def str_index_def str_rindex_def
      str_count_def str_startswith_def str_endswith_def adjust_indices_default slice_all
      find_first_self find_last_self count_occ_self)

lemma find_first_Some_iff:
  "find_first sub t = Some i \<longleftrightarrow>
     (take (length sub) (drop i t) = sub \<and> i \<le> length t
      \<and> (\<forall>j<i. take (length sub) (drop j t) \<noteq> sub))"
proof (induction t arbitrary: i)
  case Nil
  show ?case by auto
next
  case (Cons c t)
  show ?case
  proof (cases "take (length sub) (c # t) = sub")
    case True
    then show ?thesis by (cases i) auto
  next
    case False
    show ?thesis
    proof (cases i)
      case 0
      with False show ?thesis by simp
    next
      case (Suc k)
      have "(\<forall>j<Suc k. take (length sub) (drop j (c # t)) \<noteq> sub)
              = (\<forall>j<k. take (length sub) (drop j t) \<noteq> sub)"
        using False by (auto simp: less_Suc_eq_0_disj)
      with False Suc Cons[of k] show ?thesis by auto
    qed
  qed
qed

lemma find_first_prefix: "find_first sub (sub @ ss) = Some 0"
proof (cases "sub @ ss")
  case Nil
  then show ?thesis by simp
next
  case (Cons c t)
  have "take (length sub) (sub @ ss) = sub" by simp
  with Cons show ?thesis by (metis find_first.simps(2))
qed

lemma str_contains_iff: "str_contains s sub \<longleftrightarrow> (\<exists>ps ss. s = ps @ sub @ ss)"
proof
  assume "str_contains s sub"
  then obtain i where "find_first sub s = Some i" by (auto simp: str_contains_def)
  then have t: "take (length sub) (drop i s) = sub" by (simp add: find_first_Some_iff)
  have "s = take i s @ take (length sub) (drop i s) @ drop (length sub) (drop i s)"
    by (simp only: append_take_drop_id)
  with t show "\<exists>ps ss. s = ps @ sub @ ss" by metis
next
  assume "\<exists>ps ss. s = ps @ sub @ ss"
  then obtain ps ss where s: "s = ps @ sub @ ss" by blast
  have "find_first sub (ps @ sub @ ss) \<noteq> None"
    by (induction ps) (auto simp: find_first_prefix)
  with s show "str_contains s sub" by (simp add: str_contains_def)
qed

text \<open>
  C8. An \<open>iStr\<close> made from \<open>a\<close> equals an operand exactly when the lower-cased forms are
  equal, whether the operand is a plain string or an \<open>iStr\<close>; so strings that differ only
  in letter case are equal, and then each is prefix, suffix and substring of the other, found
  at index 0. Instances that are equal hash identically. Each substring query gives what
  the plain-string operation gives on the lower-cased forms of both operands, with the same
  optional bounds, and \<open>lower()\<close> returns the form stored at construction.
\<close>

theorem iStr_case_insensitive:
  "iStr_eq (iStr_init a) (Str b) = (str_lower a = str_lower b)
   \<and> iStr_eq (iStr_init a) (IStr (iStr_init b)) = (str_lower a = str_lower b)
   \<and> iStr_ne (iStr_init a) (Str b) = (str_lower a \<noteq> str_lower b)
   \<and> (differ_only_in_case a b \<longrightarrow>
        iStr_eq (iStr_init a) (Str b)
        \<and> iStr_startswith (iStr_init a) (Str b) None None
        \<and> iStr_endswith (iStr_init a) (Str b) None None
        \<and> iStr_contains (iStr_init a) (Str b)
        \<and> iStr_find (iStr_init a) (Str b) None None = 0)
   \<and> (iStr_eq x (IStr y) \<longrightarrow> iStr_hash hash x = iStr_hash hash y)
   \<and> (str_lower a = str_lower b \<longrightarrow>
        iStr_hash hash (iStr_init a) = iStr_hash hash (iStr_init b))
   \<and> iStr_contains (iStr_init a) other = str_contains (str_lower a) (lower other)
   \<and> iStr_count (iStr_init a) other start stop
       = str_count (str_lower a) (lower other) start stop
   \<and> iStr_find (iStr_init a) other start stop = str_find (str_lower a) (lower other) start stop
   \<and> iStr_rfind (iStr_init a) other start stop
       = str_rfind (str_lower a) (lower other) start stop
   \<and> iStr_index (iStr_init a) other start stop
       = str_index (str_lower a) (lower other) start stop
   \<and> iStr_rindex (iStr_init a) other start stop
       = str_rindex (str_lower a) (lower other) start stop
   \<and> iStr_startswith (iStr_init a) other start stop
       = str_startswith (str_lower a) (lower other) start stop
   \<and> iStr_endswith (iStr_init a) other start stop
       = str_endswith (str_lower a) (lower other) start stop
   \<and> lower (Str b) = str_lower b
   \<and> lower (IStr (iStr_init b)) = str_lower b
   \<and> iStr_lower (iStr_init a) = str_lower a
   \<and> iStr_lower x = lowerCaseMe x"
proof -
  have fold: "iStr_eq (iStr_init a) (Str b)
        \<and> iStr_startswith (iStr_init a) (Str b) None None
        \<and> iStr_endswith (iStr_init a) (Str b) None None
        \<and> iStr_contains (iStr_init a) (Str b)
        \<and> iStr_find (iStr_init a) (Str b) None None = 0"
    if "differ_only_in_case a b"
  proof -
    from that have "str_lower a = str_lower b" by (rule differ_only_in_case_lower)
    then show ?thesis
      by (simp add: iStr_eq_def iStr_startswith_def iStr_endswith_def iStr_contains_def
          iStr_find_def iStr_init_def str_ops_self)
  qed
  have hash: "iStr_hash hash x = iStr_hash hash y" if "iStr_eq x (IStr y)"
    using that by (simp add: iStr_eq_def iStr_hash_def iStr_lower_def)
  from fold hash show ?thesis
    by (simp add: iStr_eq_def iStr_ne_def iStr_hash_def iStr_init_def iStr_lower_def
        iStr_contains_def iStr_count_def iStr_find_def iStr_rfind_def iStr_index_def
        iStr_rindex_def iStr_startswith_def iStr_endswith_def str_ops_self)
qed

theorem iStr_case_insensitive_witness:
  "differ_only_in_case ''Read.ME'' ''rEAD.me''
   \<and> iStr_eq (iStr_init ''Read.ME'') (Str ''rEAD.me'')
   \<and> iStr_find (iStr_init ''Read.ME'') (Str ''rEAD.me'') None None = 0
   \<and> iStr_eq (iStr_init ''TXT'') (IStr (iStr_init ''txt''))
   \<and> iStr_hash (\<lambda>s. int (length s)) (iStr_init ''TXT'')
       = iStr_hash (\<lambda>s. int (length s)) (iStr_init ''txt'')
   \<and> iStr_find (iStr_init ''Hello World'') (Str ''WORLD'') (Some 2) None = 6
   \<and> str_find ''hello world'' ''world'' (Some 2) None = 6"
proof -
  have d: "differ_only_in_case ''Read.ME'' ''rEAD.me''" by code_simp
  have e: "iStr_eq (iStr_init ''TXT'') (IStr (iStr_init ''txt''))" by code_simp
  have l: "str_lower ''Hello World'' = ''hello world''" "str_lower ''WORLD'' = ''world''"
    by code_simp+
  have f: "str_find ''hello world'' ''world'' (Some 2) None = 6" by code_simp
  note t1 = iStr_case_insensitive[of "''Read.ME''" "''rEAD.me''"]
  note t2 = iStr_case_insensitive[of _ _ "iStr_init ''TXT''" "iStr_init ''txt''"
      "\<lambda>s. int (length s)"]
  note t3 = iStr_case_insensitive[of "''Hello World''" _ _ _ _ "Str ''WORLD''" "Some 2" None]
  from t1 d have r1: "iStr_eq (iStr_init ''Read.ME'') (Str ''rEAD.me'')"
    and r2: "iStr_find (iStr_init ''Read.ME'') (Str ''rEAD.me'') None None = 0"
    by blast+
  from t2 e have r3: "iStr_hash (\<lambda>s. int (length s)) (iStr_init ''TXT'')
       = iStr_hash (\<lambda>s. int (length s)) (iStr_init ''txt'')"
    by blast
  from t3 have "iStr_find (iStr_init ''Hello World'') (Str ''WORLD'') (Some 2) None
       = str_find (str_lower ''Hello World'') (lower (Str ''WORLD'')) (Some 2) None"
    by blast
  then have r4: "iStr_find (iStr_init ''Hello World'') (Str ''WORLD'') (Some 2) None = 6"
    by (simp only: lower.simps l f)
  from d e r1 r2 r3 r4 f show ?thesis by blast
qed

end
